theory Spec2Isabelle
  imports
    Main
    "HOL-Library.Word"
    "HOL-Library.Multiset"
    "HOL-Library.Char_ord"
    "HOL-Library.List_Lexorder"
begin

section \<open>The icon compiler of \<^verbatim>\<open>scripts/assets.py\<close>\<close>

text \<open>
  The theory embeds the \<^verbatim>\<open>icons\<close> sub-command of \<^verbatim>\<open>scripts/assets.py\<close>: the
  methods \<^verbatim>\<open>_icon2header\<close>, \<^verbatim>\<open>_iconIsSupported\<close> and \<^verbatim>\<open>icons\<close> of class
  \<^verbatim>\<open>Main\<close>. A Python \<^verbatim>\<open>str\<close> is a \<open>string\<close> whose characters stand for code
  points below 256, a byte is an \<open>8 word\<close>, a Python \<^verbatim>\<open>int\<close> is an \<open>int\<close>, and
  every exception that the code can raise is a value of \<open>error\<close>.

  Outside the model: failures of the file system (an output file that cannot be opened,
  a \<^verbatim>\<open>frame_rate\<close> file that cannot be read), output of \<^verbatim>\<open>convert\<close> that is not
  valid UTF-8, symbolic links, and a run of the interpreter with assertions switched
  off.
\<close>

unbundle bit_operations_syntax

subsection \<open>Exceptions\<close>

datatype error = AssertionError | ValueError | IndexError | CalledProcessError

type_synonym byte = "8 word"

subsection \<open>The string methods the script calls\<close>

text \<open>
  \<^verbatim>\<open>str.isspace\<close> on code points below 256: TAB, LF, VT, FF, CR, the four
  separators FS, GS, RS, US, the blank, NEL and the no-break space.
\<close>

definition is_space :: "char \<Rightarrow> bool" where
  "is_space c \<longleftrightarrow>
     c \<in> set [CHR 0x09, CHR 0x0A, CHR 0x0B, CHR 0x0C, CHR 0x0D, CHR 0x1C, CHR 0x1D,
              CHR 0x1E, CHR 0x1F, CHR 0x20, CHR 0x85, CHR 0xA0]"

text \<open>\<^verbatim>\<open>s.strip()\<close>\<close>

definition py_strip :: "string \<Rightarrow> string" where
  "py_strip s = rev (dropWhile is_space (rev (dropWhile is_space s)))"

text \<open>
  \<^verbatim>\<open>s.split(sep)\<close> for a separator of one character, the only kind the script uses
  (\<^verbatim>\<open>" "\<close>, \<^verbatim>\<open>"="\<close> and \<^verbatim>\<open>"."\<close>): the pieces between the separators, empty
  pieces kept, so the result is never empty.
\<close>

fun py_split :: "char \<Rightarrow> string \<Rightarrow> string list" where
  "py_split sep [] = [[]]"
| "py_split sep (c # cs) =
     (if c = sep then [] # py_split sep cs
      else (case py_split sep cs of
              [] \<Rightarrow> [[c]]
            | p # ps \<Rightarrow> (c # p) # ps))"

text \<open>\<^verbatim>\<open>sep.join(pieces)\<close>\<close>

fun py_join :: "string \<Rightarrow> string list \<Rightarrow> string" where
  "py_join sep [] = []"
| "py_join sep [p] = p"
| "py_join sep (p # q # ps) = p @ sep @ py_join sep (q # ps)"

text \<open>
  \<^verbatim>\<open>s.replace(old, new)\<close>: the occurrences of \<open>old\<close> are found from the left and do
  not overlap. (For an empty \<open>old\<close> Python puts \<open>new\<close> around every character.)
\<close>

function py_replace :: "string \<Rightarrow> string \<Rightarrow> string \<Rightarrow> string" where
  "py_replace old new [] = (if old = [] then new else [])"
| "py_replace old new (c # cs) =
     (if old = [] then new @ c # py_replace old new cs
      else if take (length old) (c # cs) = old
      then new @ py_replace old new (drop (length old) (c # cs))
      else c # py_replace old new cs)"
  by pat_completeness auto
termination
  by (relation "measure (\<lambda>(old, new, s). length s)") auto

text \<open>
  \<^verbatim>\<open>s.lower()\<close> on code points below 256: the letters A to Z, and the Latin-1
  capitals 0xC0 to 0xDE without the multiplication sign 0xD7, become the small letters
  32 places above them.
\<close>

definition upper_letters :: string where
  "upper_letters = ''ABCDEFGHIJKLMNOPQRSTUVWXYZ'' @
     [CHR 0xC0, CHR 0xC1, CHR 0xC2, CHR 0xC3, CHR 0xC4, CHR 0xC5, CHR 0xC6, CHR 0xC7,
      CHR 0xC8, CHR 0xC9, CHR 0xCA, CHR 0xCB, CHR 0xCC, CHR 0xCD, CHR 0xCE, CHR 0xCF,
      CHR 0xD0, CHR 0xD1, CHR 0xD2, CHR 0xD3, CHR 0xD4, CHR 0xD5, CHR 0xD6,
      CHR 0xD8, CHR 0xD9, CHR 0xDA, CHR 0xDB, CHR 0xDC, CHR 0xDD, CHR 0xDE]"

definition lower_letters :: string where
  "lower_letters = ''abcdefghijklmnopqrstuvwxyz'' @
     [CHR 0xE0, CHR 0xE1, CHR 0xE2, CHR 0xE3, CHR 0xE4, CHR 0xE5, CHR 0xE6, CHR 0xE7,
      CHR 0xE8, CHR 0xE9, CHR 0xEA, CHR 0xEB, CHR 0xEC, CHR 0xED, CHR 0xEE, CHR 0xEF,
      CHR 0xF0, CHR 0xF1, CHR 0xF2, CHR 0xF3, CHR 0xF4, CHR 0xF5, CHR 0xF6,
      CHR 0xF8, CHR 0xF9, CHR 0xFA, CHR 0xFB, CHR 0xFC, CHR 0xFD, CHR 0xFE]"

definition lower_char :: "char \<Rightarrow> char" where
  "lower_char c = (case map_of (zip upper_letters lower_letters) c of None \<Rightarrow> c | Some l \<Rightarrow> l)"

definition py_lower :: "string \<Rightarrow> string" where
  "py_lower s = map lower_char s"

subsection \<open>\<^verbatim>\<open>int(s)\<close> and the formatting of integers\<close>

definition is_digit :: "char \<Rightarrow> bool" where
  "is_digit c \<longleftrightarrow> c \<in> set ''0123456789''"

definition digit_value :: "char \<Rightarrow> nat" where
  "digit_value c = of_char c - 48"

text \<open>
  The digits of a decimal literal: a digit first, then digits, each preceded by at
  most one underscore.
\<close>

fun digits_ok :: "string \<Rightarrow> bool" where
  "digits_ok [] = False"
| "digits_ok [c] = is_digit c"
| "digits_ok (c # d # r) =
     (is_digit c \<and> (if d = CHR ''_'' then digits_ok r else digits_ok (d # r)))"

definition digits_nat :: "string \<Rightarrow> nat" where
  "digits_nat ds = foldl (\<lambda>n c. 10 * n + digit_value c) 0 (filter is_digit ds)"

text \<open>
  The whitespace that \<^verbatim>\<open>int(s)\<close> skips at both ends of a \<^verbatim>\<open>str\<close>: TAB, LF, VT, FF,
  CR and the blank, and also NEL and the no-break space, which the conversion turns into
  blanks first. The separators FS, GS, RS and US, which \<^verbatim>\<open>strip()\<close> removes, are not
  among them.
\<close>

definition is_int_space :: "char \<Rightarrow> bool" where
  "is_int_space c \<longleftrightarrow>
     c \<in> set [CHR 0x09, CHR 0x0A, CHR 0x0B, CHR 0x0C, CHR 0x0D, CHR 0x20, CHR 0x85, CHR 0xA0]"

definition int_strip :: "string \<Rightarrow> string" where
  "int_strip s = rev (dropWhile is_int_space (rev (dropWhile is_int_space s)))"

text \<open>
  The default of \<^verbatim>\<open>sys.get_int_max_str_digits()\<close>: a decimal literal with more digits
  is refused.
\<close>

definition int_max_str_digits :: nat where
  "int_max_str_digits = 4300"

text \<open>The value of checked digits, or \<^verbatim>\<open>ValueError\<close>; \<open>neg\<close> tells a minus sign.\<close>

definition int_of_digits :: "bool \<Rightarrow> string \<Rightarrow> error + int" where
  "int_of_digits neg ds =
     (if \<not> digits_ok ds then Inl ValueError
      else if int_max_str_digits < length (filter is_digit ds) then Inl ValueError
      else Inr (if neg then - int (digits_nat ds) else int (digits_nat ds)))"

text \<open>
  \<^verbatim>\<open>int(s)\<close> in base 10: the whitespace at both ends is skipped, one sign may come
  first and the digits follow it at once; anything else raises \<^verbatim>\<open>ValueError\<close>.
\<close>

definition py_int :: "string \<Rightarrow> error + int" where
  "py_int s =
     (case int_strip s of
        [] \<Rightarrow> Inl ValueError
      | c # r \<Rightarrow>
          if c = CHR ''-'' then int_of_digits True r
          else if c = CHR ''+'' then int_of_digits False r
          else int_of_digits False (c # r))"

text \<open>\<^verbatim>\<open>str(n)\<close> of a natural number and of an integer, as \<^verbatim>\<open>format\<close> prints them.\<close>

definition digit_char :: "nat \<Rightarrow> char" where
  "digit_char n = ''0123456789'' ! n"

fun str_nat :: "nat \<Rightarrow> string" where
  "str_nat n = (if n < 10 then [digit_char n] else str_nat (n div 10) @ [digit_char (n mod 10)])"

declare str_nat.simps [simp del]

definition str_int :: "int \<Rightarrow> string" where
  "str_int i = (if i < 0 then CHR ''-'' # str_nat (nat (- i)) else str_nat (nat i))"

text \<open>A field that may still hold \<^verbatim>\<open>None\<close> prints as \<^verbatim>\<open>None\<close>.\<close>

definition str_opt :: "int option \<Rightarrow> string" where
  "str_opt v = (case v of None \<Rightarrow> ''None'' | Some i \<Rightarrow> str_int i)"

subsection \<open>Bytes\<close>

definition hex_value :: "char \<Rightarrow> nat option" where
  "hex_value c =
     map_of [(CHR ''0'', 0), (CHR ''1'', 1), (CHR ''2'', 2), (CHR ''3'', 3), (CHR ''4'', 4),
             (CHR ''5'', 5), (CHR ''6'', 6), (CHR ''7'', 7), (CHR ''8'', 8), (CHR ''9'', 9),
             (CHR ''a'', 10), (CHR ''b'', 11), (CHR ''c'', 12), (CHR ''d'', 13),
             (CHR ''e'', 14), (CHR ''f'', 15),
             (CHR ''A'', 10), (CHR ''B'', 11), (CHR ''C'', 12), (CHR ''D'', 13),
             (CHR ''E'', 14), (CHR ''F'', 15)] c"

text \<open>The whitespace that \<^verbatim>\<open>bytearray.fromhex\<close> skips between two bytes.\<close>

definition is_ascii_space :: "char \<Rightarrow> bool" where
  "is_ascii_space c \<longleftrightarrow> c \<in> set [CHR 0x09, CHR 0x0A, CHR 0x0B, CHR 0x0C, CHR 0x0D, CHR 0x20]"

text \<open>
  \<^verbatim>\<open>bytearray.fromhex(s)\<close>: two hexadecimal digits for each byte, whitespace allowed
  between the bytes only, \<^verbatim>\<open>ValueError\<close> on anything else.
\<close>

fun fromhex :: "string \<Rightarrow> error + byte list" where
  "fromhex [] = Inr []"
| "fromhex [c] = (if is_ascii_space c then Inr [] else Inl ValueError)"
| "fromhex (c # d # r) =
     (if is_ascii_space c then fromhex (d # r)
      else (case (hex_value c, hex_value d) of
              (Some h, Some l) \<Rightarrow>
                (case fromhex r of
                   Inl e \<Rightarrow> Inl e
                 | Inr bs \<Rightarrow> Inr (word_of_nat (16 * h + l) # bs))
            | _ \<Rightarrow> Inl ValueError))"

text \<open>
  \<^verbatim>\<open>bytearray(ints)\<close>: every integer must be in \<^verbatim>\<open>range(0, 256)\<close>, otherwise
  \<^verbatim>\<open>ValueError\<close>.
\<close>

definition bytearray :: "int list \<Rightarrow> error + byte list" where
  "bytearray xs =
     (if list_all (\<lambda>x. 0 \<le> x \<and> x < 256) xs then Inr (map word_of_int xs) else Inl ValueError)"

text \<open>\<^verbatim>\<open>"0x{:02x},".format(byte)\<close>\<close>

definition hex_digit :: "nat \<Rightarrow> char" where
  "hex_digit n = ''0123456789abcdef'' ! n"

definition format_byte :: "byte \<Rightarrow> string" where
  "format_byte b = ''0x'' @ [hex_digit (unat b div 16), hex_digit (unat b mod 16)] @ '',''"

subsection \<open>\<^verbatim>\<open>_icon2header\<close>\<close>

text \<open>
  The two external programs are parameters: \<open>convert file\<close> is the decoded standard
  output of \<^verbatim>\<open>convert file xbm:-\<close>, and \<open>heatshrink bytes\<close> that of
  \<^verbatim>\<open>heatshrink -e -w8 -l4\<close> fed with \<open>bytes\<close>; either may fail, as
  \<^verbatim>\<open>subprocess.check_output\<close> raises when the program does.
\<close>

type_synonym converter = "string \<Rightarrow> error + string"
type_synonym compressor = "byte list \<Rightarrow> error + byte list"

text \<open>\<^verbatim>\<open>f.readline()\<close> on a \<^verbatim>\<open>StringIO\<close>: the line with its newline, and what is left.\<close>

fun readline :: "string \<Rightarrow> string \<times> string" where
  "readline [] = ([], [])"
| "readline (c # cs) =
     (if c = CHR 0x0A then ([c], cs)
      else (case readline cs of (l, r) \<Rightarrow> (c # l, r)))"

text \<open>\<^verbatim>\<open>int(line.strip().split(" ")[2])\<close> (lines 76 and 77)\<close>

definition header_int :: "string \<Rightarrow> error + int" where
  "header_int line =
     (let toks = py_split (CHR '' '') (py_strip line)
      in if 2 < length toks then py_int (toks ! 2) else Inl IndexError)"

text \<open>
  \<^verbatim>\<open>f.read().strip().replace("\n", "").replace(" ", "").split("=")[1][:-1]\<close> (line 78)
\<close>

definition body_text :: "string \<Rightarrow> error + string" where
  "body_text rest =
     (let parts = py_split (CHR ''='')
                    (py_replace '' '' [] (py_replace [CHR 0x0A] [] (py_strip rest)))
      in if 1 < length parts then Inr (butlast (parts ! 1)) else Inl IndexError)"

text \<open>\<^verbatim>\<open>data[1:-1].replace(",", " ").replace("0x", "")\<close> (line 79)\<close>

definition hex_text :: "string \<Rightarrow> string" where
  "hex_text data = py_replace ''0x'' [] (py_replace '','' '' '' (butlast (tl data)))"

text \<open>
  \<^verbatim>\<open>bytearray.fromhex(data_bin_str)\<close> (line 80): the bytes that the text of an array
  initialiser denotes, as the script itself reads them.
\<close>

definition array_bytes :: "string \<Rightarrow> error + byte list" where
  "array_bytes data = fromhex (hex_text data)"

text \<open>
  Lines 73 to 80, the extraction: width, height, the text \<open>data\<close> of the array
  initialiser and the bytes \<open>data_bin\<close> it denotes.
\<close>

definition extract_bitmap :: "converter \<Rightarrow> string \<Rightarrow> error + (int \<times> int \<times> string \<times> byte list)" where
  "extract_bitmap convert file =
     (case convert file of
        Inl e \<Rightarrow> Inl e
      | Inr output \<Rightarrow>
          if output = [] then Inl AssertionError
          else (case readline (py_strip output) of (line1, f1) \<Rightarrow>
            (case header_int line1 of
               Inl e \<Rightarrow> Inl e
             | Inr width \<Rightarrow>
                 (case readline f1 of (line2, f2) \<Rightarrow>
                   (case header_int line2 of
                      Inl e \<Rightarrow> Inl e
                    | Inr height \<Rightarrow>
                        (case body_text f2 of
                           Inl e \<Rightarrow> Inl e
                         | Inr data \<Rightarrow>
                             (case array_bytes data of
                                Inl e \<Rightarrow> Inl e
                              | Inr data_bin \<Rightarrow> Inr (width, height, data, data_bin))))))))"

text \<open>\<^verbatim>\<open>bytearray([len(data_enc) & 0xFF, len(data_enc) >> 8])\<close> (line 87)\<close>

definition length_prefix :: "byte list \<Rightarrow> error + byte list" where
  "length_prefix enc = bytearray [int (length enc) AND 0xFF, drop_bit 8 (int (length enc))]"

text \<open>Lines 82 to 87, the encoding: the compressed bytes behind their length.\<close>

definition encode_frame :: "compressor \<Rightarrow> byte list \<Rightarrow> error + byte list" where
  "encode_frame heatshrink data_bin =
     (case heatshrink data_bin of
        Inl e \<Rightarrow> Inl e
      | Inr data_encoded \<Rightarrow>
          if data_encoded = [] then Inl AssertionError
          else (case length_prefix data_encoded of
                  Inl e \<Rightarrow> Inl e
                | Inr pre \<Rightarrow> Inr (pre @ data_encoded)))"

text \<open>The choice of lines 89 to 96, on the prefixed blob \<open>data_enc\<close>.\<close>

definition frame_text :: "string \<Rightarrow> byte list \<Rightarrow> byte list \<Rightarrow> string" where
  "frame_text data data_bin data_enc =
     (if length data_enc < length data_bin + 1
      then ''{0x01,0x00,'' @ concat (map format_byte data_enc) @ ''}''
      else ''{0x00,'' @ tl data)"

definition icon2header :: "converter \<Rightarrow> compressor \<Rightarrow> string \<Rightarrow> error + (int \<times> int \<times> string)" where
  "icon2header convert heatshrink file =
     (case extract_bitmap convert file of
        Inl e \<Rightarrow> Inl e
      | Inr (width, height, data, data_bin) \<Rightarrow>
          (case encode_frame heatshrink data_bin of
             Inl e \<Rightarrow> Inl e
           | Inr data_enc \<Rightarrow> Inr (width, height, frame_text data data_bin data_enc)))"

subsection \<open>\<^verbatim>\<open>_iconIsSupported\<close>\<close>

definition ICONS_SUPPORTED_FORMATS :: "string list" where
  "ICONS_SUPPORTED_FORMATS = [''png'']"

definition iconIsSupported :: "string \<Rightarrow> bool" where
  "iconIsSupported filename \<longleftrightarrow>
     last (py_split (CHR ''.'') (py_lower filename)) \<in> set ICONS_SUPPORTED_FORMATS"

subsection \<open>Paths and the directory tree\<close>

text \<open>\<^verbatim>\<open>os.path.join(a, b)\<close> and \<^verbatim>\<open>os.path.split(p)[1]\<close> of \<^verbatim>\<open>posixpath\<close>.\<close>

definition path_join :: "string \<Rightarrow> string \<Rightarrow> string" where
  "path_join a b =
     (if b \<noteq> [] \<and> hd b = CHR ''/'' then b
      else if a = [] \<or> last a = CHR ''/'' then a @ b
      else a @ ''/'' @ b)"

definition path_basename :: "string \<Rightarrow> string" where
  "path_basename p = rev (takeWhile (\<lambda>c. c \<noteq> CHR ''/'') (rev p))"

text \<open>
  A directory: its subdirectories and the names of its files, both in the order in
  which the file system enumerates them. The contents of the files are read through the
  environment below.
\<close>

datatype dirtree = Dir (subdirs: "(string \<times> dirtree) list") (files: "string list")

text \<open>
  \<^verbatim>\<open>os.walk(top)\<close>, top-down: a directory is handed to the loop body before its
  subdirectories are entered, and they are entered in the order of the list
  \<^verbatim>\<open>dirnames\<close> as the body leaves it. The body of \<^verbatim>\<open>icons\<close> sorts that list
  (line 111) before anything else can end the iteration, so the walk enters the
  subdirectories in the order of their names. The file names are handed over as they
  were enumerated; the body sorts them itself.
\<close>

fun os_walk :: "string \<Rightarrow> dirtree \<Rightarrow> (string \<times> string list) list" where
  "os_walk dirpath (Dir ds fs) =
     (dirpath, fs) #
     concat (map (\<lambda>(n, t). os_walk (path_join dirpath n) t) (sort_key fst ds))"

subsection \<open>The templates\<close>

definition LF :: char where
  "LF = CHR 0x0A"

definition ICONS_TEMPLATE_H_HEADER :: string where
  "ICONS_TEMPLATE_H_HEADER = ''#pragma once'' @ [LF] @ ''#include <gui/icon.h>'' @ [LF, LF]"

definition ICONS_TEMPLATE_H_ICON_NAME :: "string \<Rightarrow> string" where
  "ICONS_TEMPLATE_H_ICON_NAME name = ''extern const Icon '' @ name @ '';'' @ [LF]"

definition ICONS_TEMPLATE_C_HEADER :: string where
  "ICONS_TEMPLATE_C_HEADER =
     ''#include '' @ [CHR 0x22] @ ''assets_icons.h'' @ [CHR 0x22, LF, LF] @
     ''#include <gui/icon_i.h>'' @ [LF, LF]"

definition ICONS_TEMPLATE_C_FRAME :: "string \<Rightarrow> string \<Rightarrow> string" where
  "ICONS_TEMPLATE_C_FRAME name data = ''const uint8_t '' @ name @ ''[] = '' @ data @ '';'' @ [LF]"

definition ICONS_TEMPLATE_C_DATA :: "string \<Rightarrow> string \<Rightarrow> string" where
  "ICONS_TEMPLATE_C_DATA name data =
     ''const uint8_t* const '' @ name @ ''[] = '' @ data @ '';'' @ [LF]"

text \<open>An entry of the list \<^verbatim>\<open>icons\<close>: name, width, height, frame rate, frame count.\<close>

type_synonym icon = "string \<times> int option \<times> int option \<times> int \<times> nat"

fun ICONS_TEMPLATE_C_ICONS :: "icon \<Rightarrow> string" where
  "ICONS_TEMPLATE_C_ICONS (name, width, height, frame_rate, frame_count) =
     ''const Icon '' @ name @ '' = {.width='' @ str_opt width @ '',.height='' @ str_opt height @
     '',.frame_count='' @ str_nat frame_count @ '',.frame_rate='' @ str_int frame_rate @
     '',.frames=_'' @ name @ ''};'' @ [LF]"

subsection \<open>\<^verbatim>\<open>icons\<close>\<close>

text \<open>
  The environment of a run: the two external programs and the contents of the files
  that the script opens itself (the \<^verbatim>\<open>frame_rate\<close> files).
\<close>

record env =
  convert :: converter
  heatshrink :: compressor
  read_file :: "string \<Rightarrow> string"

text \<open>
  What a run has produced so far: the text written to \<^verbatim>\<open>assets_icons.c\<close> and the
  list \<^verbatim>\<open>icons\<close>. An exception ends the run; the model keeps the state in which it
  was raised.
\<close>

record state =
  icons_c :: string
  registry :: "icon list"

type_synonym 'a outcome = "(error \<times> state) + 'a"

text \<open>The icon names of lines 117 and 158 to 160.\<close>

definition animation_icon_name :: "string \<Rightarrow> string" where
  "animation_icon_name dirpath = ''A_'' @ py_replace ''-'' ''_'' (path_basename dirpath)"

definition static_icon_name :: "string \<Rightarrow> string" where
  "static_icon_name filename =
     ''I_'' @ py_replace ''-'' ''_'' (py_join ''_'' (butlast (py_split (CHR ''.'') filename)))"

text \<open>The local variables of the animation branch (lines 118 to 121).\<close>

record anim =
  width :: "int option"
  height :: "int option"
  frame_count :: nat
  frame_rate :: int
  frame_names :: "string list"

definition anim_init :: anim where
  "anim_init = \<lparr>width = None, height = None, frame_count = 0, frame_rate = 0, frame_names = []\<rparr>"

text \<open>The loop of lines 122 to 142 over the sorted file names of an animation.\<close>

fun animation_loop ::
  "env \<Rightarrow> string \<Rightarrow> string \<Rightarrow> string list \<Rightarrow> anim \<Rightarrow> state \<Rightarrow> (anim \<times> state) outcome" where
  "animation_loop E dirpath icon_name [] a st = Inr (a, st)"
| "animation_loop E dirpath icon_name (filename # rest) a st =
     (let fullfilename = path_join dirpath filename in
      if filename = ''frame_rate'' then
        (case py_int (py_strip (read_file E fullfilename)) of
           Inl e \<Rightarrow> Inl (e, st)
         | Inr r \<Rightarrow> animation_loop E dirpath icon_name rest (a\<lparr>frame_rate := r\<rparr>) st)
      else if \<not> iconIsSupported filename then animation_loop E dirpath icon_name rest a st
      else
        (case icon2header (convert E) (heatshrink E) fullfilename of
           Inl e \<Rightarrow> Inl (e, st)
         | Inr (temp_width, temp_height, data) \<Rightarrow>
             (let w = (if width a = None then Some temp_width else width a);
                  h = (if height a = None then Some temp_height else height a)
              in if w \<noteq> Some temp_width then Inl (AssertionError, st)
                 else if h \<noteq> Some temp_height then Inl (AssertionError, st)
                 else
                   (let frame_name = ''_'' @ icon_name @ ''_'' @ str_nat (frame_count a)
                    in animation_loop E dirpath icon_name rest
                         (a\<lparr>width := w, height := h,
                            frame_count := frame_count a + 1,
                            frame_names := frame_names a @ [frame_name]\<rparr>)
                         (st\<lparr>icons_c := icons_c st @
                                ICONS_TEMPLATE_C_FRAME frame_name data\<rparr>)))))"

text \<open>The animation branch, lines 116 to 151.\<close>

definition animation :: "env \<Rightarrow> string \<Rightarrow> string list \<Rightarrow> state \<Rightarrow> state outcome" where
  "animation E dirpath filenames st =
     (let icon_name = animation_icon_name dirpath in
      case animation_loop E dirpath icon_name (sort filenames) anim_init st of
        Inl x \<Rightarrow> Inl x
      | Inr (a, st') \<Rightarrow>
          if \<not> 0 < frame_rate a then Inl (AssertionError, st')
          else if \<not> 0 < frame_count a then Inl (AssertionError, st')
          else Inr (st'\<lparr>icons_c := icons_c st' @
                            ICONS_TEMPLATE_C_DATA (''_'' @ icon_name)
                              (''{'' @ py_join '','' (frame_names a) @ ''}'') @ [LF],
                          registry := registry st' @
                            [(icon_name, width a, height a, frame_rate a, frame_count a)]\<rparr>))"

text \<open>The loop of the static branch, lines 154 to 173.\<close>

fun static_loop :: "env \<Rightarrow> string \<Rightarrow> string list \<Rightarrow> state \<Rightarrow> state outcome" where
  "static_loop E dirpath [] st = Inr st"
| "static_loop E dirpath (filename # rest) st =
     (if \<not> iconIsSupported filename then static_loop E dirpath rest st
      else
        (let icon_name = static_icon_name filename;
             fullfilename = path_join dirpath filename
         in case icon2header (convert E) (heatshrink E) fullfilename of
              Inl e \<Rightarrow> Inl (e, st)
            | Inr (w, h, data) \<Rightarrow>
                (let frame_name = ''_'' @ icon_name @ ''_0''
                 in static_loop E dirpath rest
                      (st\<lparr>icons_c := icons_c st @
                             ICONS_TEMPLATE_C_FRAME frame_name data @
                             ICONS_TEMPLATE_C_DATA (''_'' @ icon_name) (''{'' @ frame_name @ ''}'') @
                             [LF],
                           registry := registry st @ [(icon_name, Some w, Some h, 0, 1)]\<rparr>))))"

text \<open>The body of the loop over the walk, lines 110 to 173, for one directory.\<close>

definition process_dir :: "env \<Rightarrow> string \<times> string list \<Rightarrow> state \<Rightarrow> state outcome" where
  "process_dir E d st =
     (case d of (dirpath, names) \<Rightarrow>
        (let filenames = sort names in
         if filenames = [] then Inr st
         else if ''frame_rate'' \<in> set filenames then animation E dirpath filenames st
         else static_loop E dirpath filenames st))"

fun walk_loop :: "env \<Rightarrow> (string \<times> string list) list \<Rightarrow> state \<Rightarrow> state outcome" where
  "walk_loop E [] st = Inr st"
| "walk_loop E (d # ds) st =
     (case process_dir E d st of
        Inl x \<Rightarrow> Inl x
      | Inr st' \<Rightarrow> walk_loop E ds st')"

text \<open>
  The whole command: the result of a run that returns is the text of
  \<^verbatim>\<open>assets_icons.c\<close> and the text of \<^verbatim>\<open>assets_icons.h\<close>.
\<close>

definition icons :: "env \<Rightarrow> string \<Rightarrow> dirtree \<Rightarrow> (string \<times> string) outcome" where
  "icons E input_directory tree =
     (case walk_loop E (os_walk input_directory tree)
             \<lparr>icons_c = ICONS_TEMPLATE_C_HEADER, registry = []\<rparr> of
        Inl x \<Rightarrow> Inl x
      | Inr st \<Rightarrow>
          Inr (icons_c st @ concat (map ICONS_TEMPLATE_C_ICONS (registry st)) @ [LF],
               ICONS_TEMPLATE_H_HEADER @
                 concat (map (\<lambda>i. ICONS_TEMPLATE_H_ICON_NAME (fst i)) (registry st))))"

subsection \<open>Sample inputs\<close>

text \<open>
  A 16 by 2 bitmap as \<^verbatim>\<open>convert\<close> prints it, and collaborators that answer every call
  with a fixed output.
\<close>

definition xbm_sample :: string where
  "xbm_sample =
     ''#define -_width 16'' @ [LF] @ ''#define -_height 2'' @ [LF] @
     ''static char -_bits[] = {'' @ [LF] @ ''  0x12, 0xAb, 0x00, 0xff, };'' @ [LF]"

text \<open>
  A second bitmap text, 10 by 8, whose header lines carry a fourth token.
\<close>

definition xbm_four_tokens :: string where
  "xbm_four_tokens =
     ''#define x 10 20'' @ [LF] @ ''#define y 8 9'' @ [LF] @
     ''static char x[] = {'' @ [LF] @ ''  0x00, };'' @ [LF]"

definition convert_const :: "string \<Rightarrow> converter" where
  "convert_const output file = Inr output"

definition heatshrink_const :: "byte list \<Rightarrow> compressor" where
  "heatshrink_const blob bytes = Inr blob"

text \<open>
  An environment with the sample bitmap for every file but those named \<open>other\<close>, which
  get the second one, a compressor that always answers \<open>0xAA\<close>, and \<open>rate\<close> as the
  content of every file that is opened.
\<close>

definition convert_two :: "string \<Rightarrow> converter" where
  "convert_two other file = (if file = other then Inr xbm_four_tokens else Inr xbm_sample)"

definition sample_env :: "string \<Rightarrow> string \<Rightarrow> env" where
  "sample_env other rate =
     \<lparr>convert = convert_two other, heatshrink = heatshrink_const [0xAA],
      read_file = (\<lambda>path. rate)\<rparr>"

subsection \<open>Auxiliary notions of the statements\<close>

text \<open>The two digits of a byte and the blank that \<open>hex_text\<close> leaves behind them.\<close>

definition byte_hex :: "byte \<Rightarrow> string" where
  "byte_hex b = [hex_digit (unat b div 16), hex_digit (unat b mod 16), CHR '' '']"

text \<open>A file name that the animation loop compiles as a frame (lines 124 to 128).\<close>

definition is_frame :: "string \<Rightarrow> bool" where
  "is_frame filename \<longleftrightarrow> filename \<noteq> ''frame_rate'' \<and> iconIsSupported filename"

text \<open>The fifth component of an entry of the list of icons.\<close>

definition icon_frame_count :: "icon \<Rightarrow> nat" where
  "icon_frame_count i = (case i of (name, w, h, rate, n) \<Rightarrow> n)"

text \<open>The symbol of the frame with index \<open>k\<close> of the icon \<open>name\<close>.\<close>

definition frame_symbol :: "string \<Rightarrow> nat \<Rightarrow> string" where
  "frame_symbol name k = ''_'' @ name @ ''_'' @ str_nat k"

text \<open>
  The text that belongs to one icon in \<^verbatim>\<open>assets_icons.c\<close>, for the icon and the data
  of its frames: the arrays of the frames in the order of their indices, then the array
  of pointers to them, then an empty line.
\<close>

definition icon_block :: "icon \<times> string list \<Rightarrow> string" where
  "icon_block c =
     (case c of (i, datas) \<Rightarrow>
        concat (map (\<lambda>(k, data). ICONS_TEMPLATE_C_FRAME (frame_symbol (fst i) k) data)
                  (enumerate 0 datas)) @
        ICONS_TEMPLATE_C_DATA (''_'' @ fst i)
          (''{'' @ py_join '','' (map (\<lambda>(k, data). frame_symbol (fst i) k) (enumerate 0 datas)) @
           ''}'') @
        [LF])"

text \<open>
  The names of the icons that one directory of the walk contributes, by lines 113 to
  173: none when it has no files, the one animation when a file is called
  \<^verbatim>\<open>frame_rate\<close>, otherwise one icon for each supported file in sorted order.
\<close>

definition dir_icon_names :: "string \<times> string list \<Rightarrow> string list" where
  "dir_icon_names d =
     (case d of (dirpath, names) \<Rightarrow>
        if names = [] then []
        else if ''frame_rate'' \<in> set names then [animation_icon_name dirpath]
        else map static_icon_name (filter iconIsSupported (sort names)))"

text \<open>
  The state \<open>st'\<close> extends \<open>st\<close> by the icons \<open>cs\<close>, each with the data of its frames:
  their entries are appended to the list of icons, their blocks to the text, and every
  icon has as many frames as its entry counts, at least one.
\<close>

definition adds :: "state \<Rightarrow> state \<Rightarrow> (icon \<times> string list) list \<Rightarrow> bool" where
  "adds st st' cs \<longleftrightarrow>
     registry st' = registry st @ map fst cs \<and>
     icons_c st' = icons_c st @ concat (map icon_block cs) \<and>
     (\<forall>c\<in>set cs. length (snd c) = icon_frame_count (fst c) \<and> 0 < icon_frame_count (fst c))"

text \<open>The two files of a run over a directory with the files \<^verbatim>\<open>a.png\<close> and \<^verbatim>\<open>b.png\<close>.\<close>

definition two_icons_c :: string where
  "two_icons_c =
     ICONS_TEMPLATE_C_HEADER @
     ICONS_TEMPLATE_C_FRAME ''_I_a_0'' ''{0x01,0x00,0x01,0x00,0xaa,}'' @
     ICONS_TEMPLATE_C_DATA ''_I_a'' ''{_I_a_0}'' @ [LF] @
     ICONS_TEMPLATE_C_FRAME ''_I_b_0'' ''{0x01,0x00,0x01,0x00,0xaa,}'' @
     ICONS_TEMPLATE_C_DATA ''_I_b'' ''{_I_b_0}'' @ [LF] @
     ICONS_TEMPLATE_C_ICONS (''I_a'', Some 16, Some 2, 0, 1) @
     ICONS_TEMPLATE_C_ICONS (''I_b'', Some 16, Some 2, 0, 1) @ [LF]"

definition two_icons_h :: string where
  "two_icons_h =
     ICONS_TEMPLATE_H_HEADER @ ICONS_TEMPLATE_H_ICON_NAME ''I_a'' @ ICONS_TEMPLATE_H_ICON_NAME ''I_b''"

text \<open>
  Two listings of one tree: at every level the same file names and the same directory
  names, each as often, in whatever order, and below directories of the same name again
  two listings of one tree. Names in a directory of a file system are distinct; the
  listings are then permutations of each other, level by level.
\<close>

fun same_tree :: "dirtree \<Rightarrow> dirtree \<Rightarrow> bool" where
  "same_tree (Dir ds fs) (Dir ds' fs') \<longleftrightarrow>
     mset fs = mset fs' \<and> mset (map fst ds) = mset (map fst ds') \<and>
     (\<forall>x\<in>set ds. \<forall>y\<in>set ds'. fst x = fst y \<longrightarrow> same_tree (snd x) (snd y))"

text \<open>A directory as the walk hands it over, with its file names sorted.\<close>

definition listing :: "string \<times> string list \<Rightarrow> string \<times> string list" where
  "listing d = (fst d, sort (snd d))"

text \<open>The same tree as two different enumerations deliver it.\<close>

definition tree_a :: dirtree where
  "tree_a = Dir [(''y'', Dir [] [''b.png'', ''a.png'']), (''x'', Dir [] [''c.png''])] [''n.txt'']"

definition tree_b :: dirtree where
  "tree_b = Dir [(''x'', Dir [] [''c.png'']), (''y'', Dir [] [''a.png'', ''b.png''])] [''n.txt'']"

section \<open>Properties\<close>

subsection \<open>The length prefix\<close>

lemma and_255: "(int n AND 0xFF) = int (n mod 256)"
proof -
  have "int n AND mask 8 = take_bit 8 (int n)"
    by (simp add: take_bit_eq_mask)
  then show ?thesis
    by (simp add: take_bit_eq_mod mask_eq_exp_minus_1 zmod_int)
qed

lemma shift_8: "drop_bit 8 (int n) = int (n div 256)"
  by (simp add: drop_bit_eq_div zdiv_int)

lemma length_prefix_small:
  "length enc < 65536 \<Longrightarrow>
   length_prefix enc = Inr [word_of_nat (length enc mod 256), word_of_nat (length enc div 256)]"
  by (simp add: length_prefix_def bytearray_def and_255 shift_8 del: of_nat_mod of_nat_div)

lemma length_prefix_big: "65536 \<le> length enc \<Longrightarrow> length_prefix enc = Inl ValueError"
  by (simp add: length_prefix_def bytearray_def and_255 shift_8 del: of_nat_mod of_nat_div)

lemma unat_byte: "n < 256 \<Longrightarrow> unat (word_of_nat n :: byte) = n"
  by (simp add: unat_of_nat)

text \<open>
  Claim C9. When the compressor returns a non-empty blob shorter than 65536 bytes, the
  encoder puts two bytes in front of it, the low byte holding the length modulo 256 and
  the high byte the length divided by 256; when the blob has 65536 bytes or more, the
  high byte does not fit and the encoding ends with \<^verbatim>\<open>ValueError\<close> instead of wrapping.
\<close>

theorem length_prefix_little_endian:
  assumes "hs data_bin = Inr blob" and "blob \<noteq> []"
  shows "(length blob < 65536 \<longrightarrow>
            (\<exists>lo hi. encode_frame hs data_bin = Inr (lo # hi # blob) \<and>
               unat lo = length blob mod 256 \<and> unat hi = length blob div 256)) \<and>
         (65536 \<le> length blob \<longrightarrow> encode_frame hs data_bin = Inl ValueError)"
proof (intro conjI impI)
  assume small: "length blob < 65536"
  then have "length blob div 256 < 256" by simp
  then have "unat (word_of_nat (length blob div 256) :: byte) = length blob div 256"
    by (rule unat_byte)
  moreover have "unat (word_of_nat (length blob mod 256) :: byte) = length blob mod 256"
    by (simp add: unat_byte)
  ultimately show "\<exists>lo hi. encode_frame hs data_bin = Inr (lo # hi # blob) \<and>
               unat lo = length blob mod 256 \<and> unat hi = length blob div 256"
    using assms small by (simp add: encode_frame_def length_prefix_small)
next
  assume "65536 \<le> length blob"
  then show "encode_frame hs data_bin = Inl ValueError"
    using assms by (simp add: encode_frame_def length_prefix_big)
qed

theorem length_prefix_little_endian_witness:
  "(\<exists>lo hi. encode_frame (heatshrink_const (replicate 300 7)) [1, 2] =
       Inr (lo # hi # replicate 300 7) \<and> unat lo = 44 \<and> unat hi = 1) \<and>
   encode_frame (heatshrink_const (replicate 65536 7)) [1, 2] = Inl ValueError"
  using length_prefix_little_endian [of "heatshrink_const (replicate 300 7)" "[1, 2]" "replicate 300 7"]
    length_prefix_little_endian [of "heatshrink_const (replicate 65536 7)" "[1, 2]" "replicate 65536 7"]
  by (simp add: heatshrink_const_def)

subsection \<open>Splitting, joining and replacing\<close>

lemma split_nonempty: "py_split c s \<noteq> []"
  by (induction s) (auto split: list.splits)

lemma split_no_sep: "c \<notin> set s \<Longrightarrow> py_split c s = [s]"
  by (induction s) auto

lemma split_sep: "c \<in> set s \<Longrightarrow> \<exists>p q qs. py_split c s = p # q # qs"
proof (induction s)
  case Nil
  then show ?case by simp
next
  case (Cons x xs)
  show ?case
  proof (cases "x = c")
    case True
    then show ?thesis
      using split_nonempty [of c xs] by (cases "py_split c xs") auto
  next
    case False
    with Cons obtain p q qs where "py_split c xs = p # q # qs" by auto
    with False show ?thesis by simp
  qed
qed

lemma last_split: "last (py_split c s) = rev (takeWhile (\<lambda>x. x \<noteq> c) (rev s))"
proof (induction s)
  case Nil
  show ?case by simp
next
  case (Cons x xs)
  show ?case
  proof (cases "c \<in> set xs")
    case True
    then obtain p q qs where sp: "py_split c xs = p # q # qs"
      using split_sep by blast
    from True have "takeWhile (\<lambda>x. x \<noteq> c) (rev xs @ [x]) = takeWhile (\<lambda>x. x \<noteq> c) (rev xs)"
      by (auto simp: takeWhile_append)
    then show ?thesis using Cons sp by auto
  next
    case False
    then have sp: "py_split c xs = [xs]" by (rule split_no_sep)
    from False
    have "takeWhile (\<lambda>x. x \<noteq> c) (rev xs @ [x]) = rev xs @ (if x \<noteq> c then [x] else [])"
      by (auto simp: takeWhile_append)
    then show ?thesis using sp by auto
  qed
qed

lemma replace_char: "py_replace [a] new (xs @ ys) = py_replace [a] new xs @ py_replace [a] new ys"
  by (induction xs) auto

lemma replace_char_map: "py_replace [a] [b] xs = map (\<lambda>c. if c = a then b else c) xs"
  by (induction xs) auto

subsection \<open>Reading back the text of an array\<close>

lemma fromhex_space: "is_ascii_space c \<Longrightarrow> fromhex (c # s) = fromhex s"
  by (cases s) auto

lemma nibble_cases:
  "n < 16 \<Longrightarrow> n \<in> {15, 14, 13, 12, 11, 10, 9, 8, 7, 6, 5, 4, 3, 2, 1, 0 :: nat}"
  unfolding insert_iff empty_iff by arith

lemma hex_value_digit: "n < 16 \<Longrightarrow> hex_value (hex_digit n) = Some n"
  by (drule nibble_cases) (elim insertE emptyE, simp_all add: hex_value_def hex_digit_def)

lemma hex_digit_plain:
  "n < 16 \<Longrightarrow>
   hex_digit n \<noteq> CHR ''x'' \<and> hex_digit n \<noteq> CHR '','' \<and> \<not> is_ascii_space (hex_digit n)"
  by (drule nibble_cases) (elim insertE emptyE, simp_all add: is_ascii_space_def hex_digit_def)

lemma byte_nibbles: "(word_of_nat (16 * (unat b div 16) + unat b mod 16) :: byte) = b"
  by simp

lemma high_nibble: "unat (b :: byte) div 16 < 16"
proof -
  have "unat b < 2 ^ LENGTH(8)" by (rule unsigned_less)
  then show ?thesis by simp
qed

lemma replace_comma_byte:
  "py_replace '','' '' '' (format_byte b @ r) = ''0x'' @ byte_hex b @ py_replace '','' '' '' r"
  using hex_digit_plain [OF high_nibble, of b] hex_digit_plain [of "unat b mod 16"]
  by (simp add: format_byte_def byte_hex_def)

lemma replace_0x_byte:
  "py_replace ''0x'' [] (byte_hex b @ r) = byte_hex b @ py_replace ''0x'' [] r"
  using hex_digit_plain [OF high_nibble, of b] hex_digit_plain [of "unat b mod 16"]
  by (simp add: byte_hex_def)

lemma fromhex_byte:
  "fromhex (byte_hex b @ r) = (case fromhex r of Inl e \<Rightarrow> Inl e | Inr bs \<Rightarrow> Inr (b # bs))"
proof -
  have sp: "fromhex (CHR '' '' # r) = fromhex r"
    by (rule fromhex_space) (simp add: is_ascii_space_def)
  show ?thesis
    using hex_digit_plain [OF high_nibble, of b] hex_digit_plain [of "unat b mod 16"]
      hex_value_digit [OF high_nibble, of b] hex_value_digit [of "unat b mod 16"]
    by (simp add: byte_hex_def sp byte_nibbles split: sum.splits)
qed

lemma hex_text_bytes:
  "py_replace ''0x'' [] (py_replace '','' '' '' (concat (map format_byte bs))) =
     concat (map byte_hex bs)"
proof (induction bs)
  case Nil
  show ?case by simp
next
  case (Cons b bs)
  then show ?case
    by (simp add: replace_comma_byte replace_0x_byte del: append_assoc)
qed

lemma fromhex_bytes: "fromhex (concat (map byte_hex bs)) = Inr bs"
  by (induction bs) (simp_all add: fromhex_byte)

lemma array_bytes_compressed:
  "array_bytes (''{0x01,0x00,'' @ concat (map format_byte bs) @ ''}'') = Inr (1 # 0 # bs)"
proof -
  have "''0x01,0x00,'' = concat (map format_byte [1, 0])"
    by (simp add: format_byte_def hex_digit_def)
  then have "butlast (tl (''{0x01,0x00,'' @ concat (map format_byte bs) @ ''}'')) =
      concat (map format_byte (1 # 0 # bs))"
    by (simp add: butlast_append)
  then show ?thesis
    unfolding array_bytes_def hex_text_def by (simp only: hex_text_bytes fromhex_bytes)
qed

lemma array_bytes_raw:
  assumes "array_bytes data = Inr data_bin"
  shows "array_bytes (''{0x00,'' @ tl data) = Inr (0 # data_bin)"
proof (cases "tl data = []")
  case True
  then have "data_bin = []"
    using assms by (simp add: array_bytes_def hex_text_def)
  with True show ?thesis
    by (simp add: array_bytes_def hex_text_def is_ascii_space_def hex_value_def)
next
  case False
  have sp: "\<And>r. fromhex (CHR '' '' # r) = fromhex r"
    by (rule fromhex_space) (simp add: is_ascii_space_def)
  from False have "butlast (tl (''{0x00,'' @ tl data)) = ''0x00,'' @ butlast (tl data)"
    by (simp add: butlast_append)
  then have "hex_text (''{0x00,'' @ tl data) = ''00 '' @ hex_text data"
    by (simp add: hex_text_def)
  then show ?thesis
    using assms by (simp add: array_bytes_def sp is_ascii_space_def hex_value_def)
qed

subsection \<open>Sample runs\<close>

lemmas run_defs =
  extract_bitmap_def header_int_def py_strip_def is_space_def py_int_def int_strip_def
  is_int_space_def int_of_digits_def int_max_str_digits_def digits_nat_def
  digit_value_def is_digit_def body_text_def hex_text_def array_bytes_def is_ascii_space_def
  hex_value_def LF_def

lemma extract_of_sample:
  "cv file = Inr xbm_sample \<Longrightarrow>
   extract_bitmap cv file = Inr (16, 2, ''{0x12,0xAb,0x00,0xff,}'', [0x12, 0xAB, 0x00, 0xFF])"
  by (simp add: xbm_sample_def run_defs)

lemma extract_sample:
  "extract_bitmap (convert_const xbm_sample) file =
     Inr (16, 2, ''{0x12,0xAb,0x00,0xff,}'', [0x12, 0xAB, 0x00, 0xFF])"
  by (rule extract_of_sample) (simp add: convert_const_def)

lemma encode_sample_short:
  "encode_frame (heatshrink_const [0xAA]) bs = Inr [1, 0, 0xAA]"
  by (simp add: encode_frame_def heatshrink_const_def length_prefix_def bytearray_def)

lemma encode_sample_long:
  "encode_frame (heatshrink_const [0xAA, 0xBB, 0xCC]) bs = Inr [3, 0, 0xAA, 0xBB, 0xCC]"
  by (simp add: encode_frame_def heatshrink_const_def length_prefix_def bytearray_def)

subsection \<open>The frame encoder\<close>

text \<open>
  Claim C2. For a bitmap that was extracted and encoded, \<^verbatim>\<open>_icon2header\<close> returns the
  compressed form (the flag \<^verbatim>\<open>0x01\<close>, a zero byte and the blob behind its two-byte
  prefix) if and only if the blob with its prefix is strictly shorter than the raw bytes
  plus one, and the raw form (the flag \<^verbatim>\<open>0x00\<close> and the text of the raw bytes) if and
  only if it is not; when the two lengths are equal the raw form is returned.
\<close>

theorem compressed_iff_shorter:
  assumes "extract_bitmap cv file = Inr (w, h, data, data_bin)"
    and "encode_frame hs data_bin = Inr data_enc"
  shows "\<exists>d. icon2header cv hs file = Inr (w, h, d) \<and>
           (d = ''{0x01,0x00,'' @ concat (map format_byte data_enc) @ ''}'' \<longleftrightarrow>
              length data_enc < length data_bin + 1) \<and>
           (d = ''{0x00,'' @ tl data \<longleftrightarrow> \<not> length data_enc < length data_bin + 1) \<and>
           (length data_enc = length data_bin + 1 \<longrightarrow> d = ''{0x00,'' @ tl data)"
proof -
  let ?C = "''{0x01,0x00,'' @ concat (map format_byte data_enc) @ ''}''"
  let ?R = "''{0x00,'' @ tl data"
  have differ: "?C \<noteq> ?R" by simp
  have run: "icon2header cv hs file = Inr (w, h, frame_text data data_bin data_enc)"
    using assms by (simp add: icon2header_def)
  show ?thesis
  proof (cases "length data_enc < length data_bin + 1")
    case True
    then have "frame_text data data_bin data_enc = ?C" by (simp add: frame_text_def)
    with run True differ show ?thesis by auto
  next
    case False
    then have "frame_text data data_bin data_enc = ?R" by (simp add: frame_text_def)
    with run False differ show ?thesis by auto
  qed
qed

theorem compressed_iff_shorter_witness:
  "icon2header (convert_const xbm_sample) (heatshrink_const [0xAA]) ''a.png'' =
     Inr (16, 2, ''{0x01,0x00,0x01,0x00,0xaa,}'') \<and>
   icon2header (convert_const xbm_sample) (heatshrink_const [0xAA, 0xBB, 0xCC]) ''a.png'' =
     Inr (16, 2, ''{0x00,0x12,0xAb,0x00,0xff,}'')"
proof -
  from compressed_iff_shorter [OF extract_sample encode_sample_short, of "''a.png''"]
  have "icon2header (convert_const xbm_sample) (heatshrink_const [0xAA]) ''a.png'' =
     Inr (16, 2, ''{0x01,0x00,'' @ concat (map format_byte [1, 0, 0xAA]) @ ''}'')"
    by auto
  moreover
  from compressed_iff_shorter [OF extract_sample encode_sample_long, of "''a.png''"]
  have "icon2header (convert_const xbm_sample) (heatshrink_const [0xAA, 0xBB, 0xCC]) ''a.png'' =
     Inr (16, 2, ''{0x00,'' @ tl ''{0x12,0xAb,0x00,0xff,}'')"
    by auto
  ultimately show ?thesis by (simp add: format_byte_def hex_digit_def)
qed

text \<open>
  Claim C1, as amended. When the compressed form is chosen, the text of the frame is the
  flag \<^verbatim>\<open>0x01\<close>, then a byte \<^verbatim>\<open>0x00\<close>, then the two bytes of the little-endian
  length, then the compressed bytes; when the raw form is chosen it is the flag
  \<^verbatim>\<open>0x00\<close> and then the text of the raw bytes. Read back the way the script reads an
  array, the first denotes the bytes 1, 0, low, high and the blob, the second the byte 0
  and the raw bytes.
\<close>

theorem frame_layout:
  assumes "extract_bitmap cv file = Inr (w, h, data, data_bin)"
    and "hs data_bin = Inr blob" and "blob \<noteq> []" and "length blob < 65536"
  shows "\<exists>d. icon2header cv hs file = Inr (w, h, d) \<and>
           (if length blob + 2 < length data_bin + 1
            then d = ''{0x01,0x00,'' @
                     concat (map format_byte
                       (word_of_nat (length blob mod 256) # word_of_nat (length blob div 256) # blob)) @
                     ''}'' \<and>
                 array_bytes d =
                   Inr (1 # 0 # word_of_nat (length blob mod 256) #
                        word_of_nat (length blob div 256) # blob)
            else d = ''{0x00,'' @ tl data \<and> array_bytes d = Inr (0 # data_bin))"
proof -
  have enc: "encode_frame hs data_bin =
      Inr (word_of_nat (length blob mod 256) # word_of_nat (length blob div 256) # blob)"
    using assms by (simp add: encode_frame_def length_prefix_small)
  have bin: "array_bytes data = Inr data_bin"
    using assms(1)
    by (auto simp: extract_bitmap_def split: sum.splits if_splits prod.splits)
  let ?enc = "word_of_nat (length blob mod 256) # word_of_nat (length blob div 256) # blob"
  let ?d = "frame_text data data_bin ?enc"
  have run: "icon2header cv hs file = Inr (w, h, ?d)"
    using assms(1) enc by (simp add: icon2header_def)
  show ?thesis
  proof (cases "length blob + 2 < length data_bin + 1")
    case True
    then have d: "?d = ''{0x01,0x00,'' @ concat (map format_byte ?enc) @ ''}''"
      by (simp add: frame_text_def)
    have "array_bytes ?d = Inr (1 # 0 # ?enc)"
      unfolding d by (rule array_bytes_compressed)
    with run d True show ?thesis by (simp only: if_True) blast
  next
    case False
    then have d: "?d = ''{0x00,'' @ tl data"
      by (simp add: frame_text_def)
    have "array_bytes ?d = Inr (0 # data_bin)"
      unfolding d using bin by (rule array_bytes_raw)
    with run d False show ?thesis by (simp only: if_False) blast
  qed
qed

theorem frame_layout_witness:
  "(\<exists>d. icon2header (convert_const xbm_sample) (heatshrink_const [0xAA]) ''a.png'' = Inr (16, 2, d) \<and>
        d = ''{0x01,0x00,0x01,0x00,0xaa,}'' \<and> array_bytes d = Inr [1, 0, 1, 0, 0xAA]) \<and>
   (\<exists>d. icon2header (convert_const xbm_sample) (heatshrink_const [0xAA, 0xBB, 0xCC]) ''a.png'' =
          Inr (16, 2, d) \<and>
        d = ''{0x00,0x12,0xAb,0x00,0xff,}'' \<and> array_bytes d = Inr [0, 0x12, 0xAB, 0x00, 0xFF])"
  using frame_layout [OF extract_sample, of "heatshrink_const [0xAA]" "[0xAA]" "''a.png''"]
    frame_layout [OF extract_sample, of "heatshrink_const [0xAA, 0xBB, 0xCC]" "[0xAA, 0xBB, 0xCC]" "''a.png''"]
  by (simp add: heatshrink_const_def format_byte_def hex_digit_def)

text \<open>
  Claim C1 as stated fails: in a compressed frame the flag \<^verbatim>\<open>0x01\<close> is followed by
  a zero byte, not by the length. For the sample bitmap and the one-byte blob \<open>0xAA\<close>
  the frame is 1, 0, 1, 0, 0xAA and not 1, 1, 0, 0xAA.
\<close>

theorem flag_then_length_counterexample:
  "icon2header (convert_const xbm_sample) (heatshrink_const [0xAA]) ''a.png'' =
     Inr (16, 2, ''{0x01,0x00,0x01,0x00,0xaa,}'') \<and>
   array_bytes ''{0x01,0x00,0x01,0x00,0xaa,}'' = Inr [1, 0, 1, 0, 0xAA] \<and>
   [1, 0, 1, 0, 0xAA] \<noteq> [1 :: byte] @ [1, 0] @ [0xAA]"
  by (simp add: icon2header_def extract_sample encode_sample_short frame_text_def
      format_byte_def hex_digit_def array_bytes_def hex_text_def is_ascii_space_def hex_value_def)

subsection \<open>The bitmap extractor\<close>

lemma extract_bitmap_header:
  assumes "cv file = Inr output" and "extract_bitmap cv file = Inr (w, h, data, data_bin)"
  shows "\<exists>line1 f1 line2 f2.
           readline (py_strip output) = (line1, f1) \<and> readline f1 = (line2, f2) \<and>
           header_int line1 = Inr w \<and> header_int line2 = Inr h"
  using assms
  by (auto simp: extract_bitmap_def split: sum.splits if_splits prod.splits)

lemma header_int_token:
  "header_int line = Inr v \<Longrightarrow>
   2 < length (py_split (CHR '' '') (py_strip line)) \<and>
   py_int (py_split (CHR '' '') (py_strip line) ! 2) = Inr v"
  by (auto simp: header_int_def Let_def split: if_splits)

text \<open>
  Claim C3, as amended. When the extraction succeeds, the width is the integer value of
  the third piece (index 2) of the stripped first line split at single blanks, and the
  height that of the third piece of the stripped second line; on a line of exactly
  three pieces the third piece is the last one. These are the width and the height that
  \<^verbatim>\<open>_icon2header\<close> returns when it returns.
\<close>

theorem header_third_token:
  assumes "cv file = Inr output" and "extract_bitmap cv file = Inr (w, h, data, data_bin)"
  shows "(\<exists>line1 f1 line2 f2 t1 t2.
           readline (py_strip output) = (line1, f1) \<and> readline f1 = (line2, f2) \<and>
           t1 = py_split (CHR '' '') (py_strip line1) \<and>
           t2 = py_split (CHR '' '') (py_strip line2) \<and>
           2 < length t1 \<and> py_int (t1 ! 2) = Inr w \<and>
           2 < length t2 \<and> py_int (t2 ! 2) = Inr h \<and>
           (length t1 = 3 \<longrightarrow> t1 ! 2 = last t1) \<and> (length t2 = 3 \<longrightarrow> t2 ! 2 = last t2)) \<and>
         (icon2header cv hs file = Inr (w', h', d) \<longrightarrow> w' = w \<and> h' = h)"
proof
  from extract_bitmap_header [OF assms] obtain line1 f1 line2 f2 where
    r: "readline (py_strip output) = (line1, f1)" "readline f1 = (line2, f2)" and
    h: "header_int line1 = Inr w" "header_int line2 = Inr h"
    by blast
  have "\<And>t :: string list. length t = 3 \<Longrightarrow> t ! 2 = last t"
  proof -
    fix t :: "string list"
    assume l: "length t = 3"
    then have "t \<noteq> []" by auto
    then have "last t = t ! (length t - 1)" by (rule last_conv_nth)
    with l show "t ! 2 = last t" by simp
  qed
  with r header_int_token [OF h(1)] header_int_token [OF h(2)]
  show "\<exists>line1 f1 line2 f2 t1 t2.
           readline (py_strip output) = (line1, f1) \<and> readline f1 = (line2, f2) \<and>
           t1 = py_split (CHR '' '') (py_strip line1) \<and>
           t2 = py_split (CHR '' '') (py_strip line2) \<and>
           2 < length t1 \<and> py_int (t1 ! 2) = Inr w \<and>
           2 < length t2 \<and> py_int (t2 ! 2) = Inr h \<and>
           (length t1 = 3 \<longrightarrow> t1 ! 2 = last t1) \<and> (length t2 = 3 \<longrightarrow> t2 ! 2 = last t2)"
    by blast
next
  show "icon2header cv hs file = Inr (w', h', d) \<longrightarrow> w' = w \<and> h' = h"
    using assms(2) by (auto simp: icon2header_def split: sum.splits)
qed

lemma extract_of_four_tokens:
  "cv file = Inr xbm_four_tokens \<Longrightarrow>
   extract_bitmap cv file = Inr (10, 8, ''{0x00,}'', [0x00])"
  by (simp add: xbm_four_tokens_def run_defs)

lemma extract_four_tokens:
  "extract_bitmap (convert_const xbm_four_tokens) file = Inr (10, 8, ''{0x00,}'', [0x00])"
  by (rule extract_of_four_tokens) (simp add: convert_const_def)

lemma icon2header_four_tokens:
  "icon2header (convert_const xbm_four_tokens) (heatshrink_const [0xAA]) file =
     Inr (10, 8, ''{0x00,0x00,}'')"
  by (simp add: icon2header_def extract_four_tokens encode_sample_short frame_text_def)

theorem header_third_token_witness:
  "\<exists>line1 f1 line2 f2.
     readline (py_strip xbm_four_tokens) = (line1, f1) \<and> readline f1 = (line2, f2) \<and>
     py_int (py_split (CHR '' '') (py_strip line1) ! 2) = Inr 10 \<and>
     py_int (py_split (CHR '' '') (py_strip line2) ! 2) = Inr 8"
proof -
  have c: "convert_const xbm_four_tokens ''a.png'' = Inr xbm_four_tokens"
    by (simp add: convert_const_def)
  from header_third_token [OF c extract_four_tokens, THEN conjunct1]
  show ?thesis by blast
qed

text \<open>
  Claim C3 as stated fails: on a first line of four tokens, \<^verbatim>\<open>#define x 10 20\<close>, the
  width is 10, the value of the third token, while the last token is 20.
\<close>

theorem last_token_counterexample:
  "icon2header (convert_const xbm_four_tokens) (heatshrink_const [0xAA]) ''a.png'' =
     Inr (10, 8, ''{0x00,0x00,}'') \<and>
   fst (readline (py_strip xbm_four_tokens)) = ''#define x 10 20'' @ [LF] \<and>
   py_int (last (py_split (CHR '' '') (py_strip (''#define x 10 20'' @ [LF])))) = Inr 20"
proof (intro conjI)
  show "icon2header (convert_const xbm_four_tokens) (heatshrink_const [0xAA]) ''a.png'' =
     Inr (10, 8, ''{0x00,0x00,}'')"
    by (rule icon2header_four_tokens)
  show "fst (readline (py_strip xbm_four_tokens)) = ''#define x 10 20'' @ [LF]"
    by (simp add: xbm_four_tokens_def py_strip_def is_space_def LF_def)
  show "py_int (last (py_split (CHR '' '') (py_strip (''#define x 10 20'' @ [LF])))) = Inr 20"
    by (simp add: py_strip_def is_space_def LF_def py_int_def int_strip_def is_int_space_def
        int_of_digits_def int_max_str_digits_def is_digit_def digits_nat_def
        digit_value_def)
qed

subsection \<open>Icon names\<close>

lemma split_append: "py_split c (a @ c # b) = py_split c a @ py_split c b"
proof (induction a)
  case Nil
  show ?case by simp
next
  case (Cons x xs)
  then show ?case
    using split_nonempty [of c xs] by (cases "py_split c xs") auto
qed

lemma join_cons: "qs \<noteq> [] \<Longrightarrow> py_join j ((x # p) # qs) = x # py_join j (p # qs)"
  by (cases qs) auto

lemma join_split: "py_join [j] (py_split c a) = map (\<lambda>x. if x = c then j else x) a"
proof (induction a)
  case Nil
  show ?case by simp
next
  case (Cons x xs)
  obtain p ps where sp: "py_split c xs = p # ps"
    using split_nonempty [of c xs] by (cases "py_split c xs") auto
  show ?case
  proof (cases "x = c")
    case True
    with Cons sp show ?thesis by simp
  next
    case False
    with Cons sp show ?thesis by (cases ps) auto
  qed
qed

lemma static_name_dot:
  assumes "CHR ''.'' \<notin> set ext"
  shows "static_icon_name (stem @ ''.'' @ ext) =
     ''I_'' @ map (\<lambda>c. if c = CHR ''.'' \<or> c = CHR ''-'' then CHR ''_'' else c) stem"
proof -
  have "py_split (CHR ''.'') (stem @ CHR ''.'' # ext) = py_split (CHR ''.'') stem @ [ext]"
    using assms by (simp add: split_append split_no_sep)
  then have "butlast (py_split (CHR ''.'') (stem @ ''.'' @ ext)) = py_split (CHR ''.'') stem"
    by simp
  then show ?thesis
    by (simp add: static_icon_name_def join_split replace_char_map) 
qed

lemma static_name_no_dot: "CHR ''.'' \<notin> set f \<Longrightarrow> static_icon_name f = ''I_''"
  by (simp add: static_icon_name_def split_no_sep)

lemma basename_slash:
  "CHR ''/'' \<notin> set b \<Longrightarrow> path_basename (p @ ''/'' @ b) = b"
  by (simp add: path_basename_def takeWhile_append)

lemma basename_no_slash:
  assumes "CHR ''/'' \<notin> set b"
  shows "path_basename b = b"
proof -
  have "takeWhile (\<lambda>c. c \<noteq> CHR ''/'') (rev b) = rev b"
    using assms by (auto simp: takeWhile_eq_all_conv)
  then have "rev (takeWhile (\<lambda>c. c \<noteq> CHR ''/'') (rev b)) = rev (rev b)"
    by (rule arg_cong)
  then show ?thesis
    unfolding path_basename_def by (simp only: rev_rev_ident)
qed

subsection \<open>Animation groups\<close>

lemma animation_loop_registry:
  "animation_loop E dp nm fs a st = Inl (e, st') \<Longrightarrow> registry st' = registry st"
  "animation_loop E dp nm fs a st = Inr (a', st') \<Longrightarrow> registry st' = registry st"
proof (induction fs arbitrary: a st)
  case Nil
  { case 1 then show ?case by simp }
  { case 2 then show ?case by simp }
next
  case (Cons f fs)
  { case 1 
    then show ?case using Cons.IH(1) 
      by (fastforce simp: Let_def split: sum.splits if_splits prod.splits) }
  { case 2
    then show ?case using Cons.IH(2)
      by (fastforce simp: Let_def split: sum.splits if_splits prod.splits) }
qed

lemma animation_error_registry:
  assumes "animation E dp fns st = Inl (e, st')"
  shows "registry st' = registry st"
  using assms animation_loop_registry [of E dp "animation_icon_name dp" "sort fns" anim_init st]
  by (auto simp: animation_def Let_def split: sum.splits if_splits prod.splits)

lemma loop_rate_nonpositive:
  assumes "py_int (py_strip (read_file E (path_join dp ''frame_rate''))) = Inr r" and "r \<le> 0"
  shows "frame_rate a \<le> 0 \<Longrightarrow> animation_loop E dp nm fs a st = Inr (a', st') \<Longrightarrow>
         frame_rate a' \<le> 0"
proof (induction fs arbitrary: a st)
  case Nil
  then show ?case by simp
next
  case (Cons f fs)
  from Cons.prems assms show ?case
    by (auto simp: Let_def split: sum.splits if_splits prod.splits dest!: Cons.IH [rotated])
qed

lemma loop_no_frames:
  "\<forall>f\<in>set fs. \<not> is_frame f \<Longrightarrow> animation_loop E dp nm fs a st = Inr (a', st') \<Longrightarrow>
   frame_count a' = frame_count a"
proof (induction fs arbitrary: a st)
  case Nil
  then show ?case by simp
next
  case (Cons f fs)
  from Cons.prems show ?case
    by (auto simp: Let_def is_frame_def split: sum.splits if_splits prod.splits dest!: Cons.IH [rotated])
qed

lemma walk_loop_fails:
  assumes "\<And>st. \<exists>x. process_dir E d st = Inl x"
  shows "d \<in> set ds \<Longrightarrow> \<exists>x. walk_loop E ds st = Inl x"
proof (induction ds arbitrary: st)
  case Nil
  then show ?case by simp
next
  case (Cons g gs)
  show ?case
  proof (cases "process_dir E g st")
    case (Inl x)
    then show ?thesis by simp
  next
    case (Inr st')
    show ?thesis
    proof (cases "g = d")
      case True
      with assms [of st] Inr show ?thesis by auto
    next
      case False
      with Cons.prems have "d \<in> set gs" by simp
      from Cons.IH [OF this] Inr show ?thesis by simp
    qed
  qed
qed

lemma icons_fails:
  assumes "\<And>st. \<exists>x. process_dir E d st = Inl x" and "d \<in> set (os_walk input_directory tree)"
  shows "\<exists>x. icons E input_directory tree = Inl x"
proof -
  from walk_loop_fails [of E d, OF assms(1) assms(2)]
  obtain x where "walk_loop E (os_walk input_directory tree)
      \<lparr>icons_c = ICONS_TEMPLATE_C_HEADER, registry = []\<rparr> = Inl x"
    by blast
  then show ?thesis by (simp add: icons_def)
qed

lemma sort_sort: "sort (sort names) = sort (names :: string list)"
  by (simp add: sorted_sort_id)

lemma animation_dir:
  assumes "''frame_rate'' \<in> set names"
  shows "process_dir E (dirpath, names) st = animation E dirpath (sort names) st"
proof -
  have "sort names \<noteq> []"
  proof
    assume "sort names = []"
    then have "length (sort names) = length ([] :: string list)" by (rule arg_cong)
    with assms show False by simp
  qed
  with assms show ?thesis by (simp add: process_dir_def Let_def)
qed

lemma animation_aborts:
  assumes "''frame_rate'' \<in> set names"
    and "\<And>a' st'. animation_loop E dirpath (animation_icon_name dirpath) (sort names) anim_init st =
            Inr (a', st') \<Longrightarrow> frame_rate a' \<le> 0 \<or> frame_count a' = 0"
  shows "\<exists>e st'. process_dir E (dirpath, names) st = Inl (e, st') \<and> registry st' = registry st"
proof (cases "animation_loop E dirpath (animation_icon_name dirpath) (sort names) anim_init st")
  case (Inl x)
  obtain e st' where x: "x = (e, st')" by (cases x)
  with Inl animation_loop_registry(1) [of E dirpath _ "sort names" anim_init st e st']
  have "registry st' = registry st" by simp
  with Inl x assms(1) show ?thesis
    by (simp add: animation_dir animation_def Let_def sort_sort)
next
  case (Inr y)
  obtain a' st' where y: "y = (a', st')" by (cases y)
  with Inr animation_loop_registry(2) [of E dirpath _ "sort names" anim_init st a' st']
  have reg: "registry st' = registry st" by simp
  from assms(2) Inr y have "frame_rate a' \<le> 0 \<or> frame_count a' = 0" by simp
  with Inr y reg assms(1) show ?thesis
    by (auto simp: animation_dir animation_def Let_def sort_sort)
qed

text \<open>
  Claim C7. A directory whose file names include \<^verbatim>\<open>frame_rate\<close> and that has no file
  compiled as a frame, or whose \<^verbatim>\<open>frame_rate\<close> file holds an integer that is at most 0,
  ends the loop body with an exception, in whatever state it is entered, and the list
  of icons is then the one it was entered with; a run over a tree in which the walk
  reaches such a directory ends with an exception.
\<close>

theorem animation_needs_frames_and_rate:
  assumes "''frame_rate'' \<in> set names"
    and "(\<forall>f\<in>set names. \<not> is_frame f) \<or>
         (\<exists>r. py_int (py_strip (read_file E (path_join dirpath ''frame_rate''))) = Inr r \<and> r \<le> 0)"
  shows "(\<exists>e st'. process_dir E (dirpath, names) st = Inl (e, st') \<and> registry st' = registry st) \<and>
         ((dirpath, names) \<in> set (os_walk input_directory tree) \<longrightarrow>
            (\<exists>x. icons E input_directory tree = Inl x))"
proof -
  have ab: "\<exists>e st'. process_dir E (dirpath, names) s = Inl (e, st') \<and> registry st' = registry s"
    for s
  proof (rule animation_aborts [OF assms(1)])
    fix a' st'
    assume run: "animation_loop E dirpath (animation_icon_name dirpath) (sort names) anim_init s =
            Inr (a', st')"
    from assms(2) show "frame_rate a' \<le> 0 \<or> frame_count a' = 0"
    proof
      assume "\<forall>f\<in>set names. \<not> is_frame f"
      then have "\<forall>f\<in>set (sort names). \<not> is_frame f" by simp
      from loop_no_frames [OF this run] show ?thesis by (simp add: anim_init_def)
    next
      assume "\<exists>r. py_int (py_strip (read_file E (path_join dirpath ''frame_rate''))) = Inr r \<and> r \<le> 0"
      then obtain r where
        "py_int (py_strip (read_file E (path_join dirpath ''frame_rate''))) = Inr r" "r \<le> 0"
        by blast
      from loop_rate_nonpositive [OF this _ run] show ?thesis by (simp add: anim_init_def)
    qed
  qed
  then have "\<And>s. \<exists>x. process_dir E (dirpath, names) s = Inl x" by blast
  from icons_fails [of E "(dirpath, names)", OF this] ab [of st] show ?thesis by blast
qed

lemma loop_mismatch:
  assumes "icon2header (convert E) (heatshrink E) (path_join dp f) = Inr (w, h, d)"
    and "is_frame f" and "w \<noteq> w0 \<or> h \<noteq> h0"
  shows "f \<in> set fs \<Longrightarrow> width a = Some w0 \<Longrightarrow> height a = Some h0 \<Longrightarrow>
         \<exists>x. animation_loop E dp nm fs a st = Inl x"
proof (induction fs arbitrary: a st)
  case Nil
  then show ?case by simp
next
  case (Cons g gs)
  show ?case
  proof (cases "g = f")
    case True
    with assms Cons.prems show ?thesis
      by (auto simp: is_frame_def Let_def)
  next
    case False
    with Cons.prems have "f \<in> set gs" by simp
    note ih = Cons.IH [OF this]
    show ?thesis
    proof (cases "g = ''frame_rate''")
      case True
      show ?thesis
      proof (cases "py_int (py_strip (read_file E (path_join dp g)))")
        case (Inl e)
        with True show ?thesis by simp
      next
        case (Inr r)
        from ih [of "a\<lparr>frame_rate := r\<rparr>" st] Cons.prems
        obtain x where "animation_loop E dp nm gs (a\<lparr>frame_rate := r\<rparr>) st = Inl x"
          by auto
        with True Inr show ?thesis by simp
      qed
    next
      case no_rate: False
      show ?thesis
      proof (cases "iconIsSupported g")
        case False
        with no_rate ih [of a st] Cons.prems show ?thesis by simp
      next
        case True
        show ?thesis
        proof (cases "icon2header (convert E) (heatshrink E) (path_join dp g)")
          case (Inl e)
          with no_rate True show ?thesis by simp
        next
          case (Inr t)
          obtain tw th td where t: "t = (tw, th, td)" by (cases t)
          show ?thesis
          proof (cases "tw = w0 \<and> th = h0")
            case False
            with no_rate True Inr t Cons.prems show ?thesis
              by (auto simp: Let_def)
          next
            case same: True
            let ?a = "a\<lparr>width := Some w0, height := Some h0,
                frame_count := frame_count a + 1,
                frame_names := frame_names a @ [''_'' @ nm @ ''_'' @ str_nat (frame_count a)]\<rparr>"
            let ?st = "st\<lparr>icons_c := icons_c st @
                ICONS_TEMPLATE_C_FRAME (''_'' @ nm @ ''_'' @ str_nat (frame_count a)) td\<rparr>"
            from ih [of ?a ?st] obtain x where "animation_loop E dp nm gs ?a ?st = Inl x"
              by auto
            with no_rate True Inr t same Cons.prems show ?thesis
              by (simp add: Let_def)
          qed
        qed
      qed
    qed
  qed
qed

lemma loop_first_frame:
  assumes "icon2header (convert E) (heatshrink E) (path_join dp f0) = Inr (w0, h0, d0)"
    and "icon2header (convert E) (heatshrink E) (path_join dp f) = Inr (w, h, d)"
    and "w \<noteq> w0 \<or> h \<noteq> h0" and "f \<in> set rest"
  shows "filter is_frame fs = f0 # rest \<Longrightarrow> width a = None \<Longrightarrow> height a = None \<Longrightarrow>
         \<exists>x. animation_loop E dp nm fs a st = Inl x"
proof (induction fs arbitrary: a st)
  case Nil
  then show ?case by simp
next
  case (Cons g gs)
  show ?case
  proof (cases "is_frame g")
    case True
    with Cons.prems have g: "g = f0" and rest: "filter is_frame gs = rest" by simp_all
    from rest assms(4) have f: "f \<in> set gs" "is_frame f" by auto
    let ?a = "a\<lparr>width := Some w0, height := Some h0,
        frame_count := frame_count a + 1,
        frame_names := frame_names a @ [''_'' @ nm @ ''_'' @ str_nat (frame_count a)]\<rparr>"
    let ?st = "st\<lparr>icons_c := icons_c st @
        ICONS_TEMPLATE_C_FRAME (''_'' @ nm @ ''_'' @ str_nat (frame_count a)) d0\<rparr>"
    from loop_mismatch [OF assms(2) f(2) assms(3) f(1), of ?a nm ?st]
    obtain x where "animation_loop E dp nm gs ?a ?st = Inl x" by auto
    with True g assms(1) Cons.prems show ?thesis
      by (simp add: is_frame_def Let_def)
  next
    case False
    with Cons.prems have rest: "filter is_frame gs = f0 # rest" by simp
    note ih = Cons.IH [OF rest]
    show ?thesis
    proof (cases "g = ''frame_rate''")
      case True
      show ?thesis
      proof (cases "py_int (py_strip (read_file E (path_join dp g)))")
        case (Inl e)
        with True show ?thesis by simp
      next
        case (Inr r)
        from ih [of "a\<lparr>frame_rate := r\<rparr>" st] Cons.prems
        obtain x where "animation_loop E dp nm gs (a\<lparr>frame_rate := r\<rparr>) st = Inl x"
          by auto
        with True Inr show ?thesis by simp
      qed
    next
      case no_rate: False
      with False have "\<not> iconIsSupported g" by (simp add: is_frame_def)
      with no_rate ih [of a st] Cons.prems show ?thesis by simp
    qed
  qed
qed

text \<open>
  Claim C6. In a directory whose file names include \<^verbatim>\<open>frame_rate\<close>, let \<open>f0\<close> be the
  first file compiled as a frame, in the sorted order, and \<open>f\<close> a later one. When both
  are extracted and the width or the height of \<open>f\<close> differs from that of \<open>f0\<close>, the loop
  body ends with an exception, in whatever state it is entered, and the list of icons is
  then the one it was entered with; a run over a tree in which the walk reaches such a
  directory ends with an exception.
\<close>

theorem animation_frames_agree:
  assumes "''frame_rate'' \<in> set names"
    and "filter is_frame (sort names) = f0 # rest" and "f \<in> set rest"
    and "icon2header (convert E) (heatshrink E) (path_join dirpath f0) = Inr (w0, h0, d0)"
    and "icon2header (convert E) (heatshrink E) (path_join dirpath f) = Inr (w, h, d)"
    and "w \<noteq> w0 \<or> h \<noteq> h0"
  shows "(\<exists>e st'. process_dir E (dirpath, names) st = Inl (e, st') \<and> registry st' = registry st) \<and>
         ((dirpath, names) \<in> set (os_walk input_directory tree) \<longrightarrow>
            (\<exists>x. icons E input_directory tree = Inl x))"
proof -
  have ab: "\<exists>e st'. process_dir E (dirpath, names) s = Inl (e, st') \<and> registry st' = registry s"
    for s
  proof (rule animation_aborts [OF assms(1)])
    fix a' st'
    assume run: "animation_loop E dirpath (animation_icon_name dirpath) (sort names) anim_init s =
            Inr (a', st')"
    from loop_first_frame [OF assms(4,5,6,3,2), of anim_init "animation_icon_name dirpath" s] run
    show "frame_rate a' \<le> 0 \<or> frame_count a' = 0"
      by (simp add: anim_init_def)
  qed
  then have "\<And>s. \<exists>x. process_dir E (dirpath, names) s = Inl x" by blast
  from icons_fails [of E "(dirpath, names)", OF this] ab [of st] show ?thesis by blast
qed

subsection \<open>Sample animation groups\<close>

lemma icon2header_env_sample:
  "file \<noteq> other \<Longrightarrow>
   icon2header (convert (sample_env other rate)) (heatshrink (sample_env other rate)) file =
     Inr (16, 2, ''{0x01,0x00,0x01,0x00,0xaa,}'')"
  by (simp add: icon2header_def sample_env_def convert_two_def extract_of_sample
      encode_sample_short frame_text_def format_byte_def hex_digit_def)

lemma icon2header_env_other:
  "icon2header (convert (sample_env other rate)) (heatshrink (sample_env other rate)) other =
     Inr (10, 8, ''{0x00,0x00,}'')"
  by (simp add: icon2header_def sample_env_def convert_two_def extract_of_four_tokens
      encode_sample_short frame_text_def)

lemmas name_defs =
  is_frame_def iconIsSupported_def py_lower_def lower_char_def upper_letters_def
  lower_letters_def ICONS_SUPPORTED_FORMATS_def

lemma sample_frames:
  "is_frame ''a.png''" "is_frame ''b.png''" "\<not> is_frame ''frame_rate''"
  by (simp_all add: name_defs)

lemma sample_rate:
  "py_int (py_strip (read_file (sample_env other ''0'') path)) = Inr 0"
  by (simp add: sample_env_def py_int_def int_strip_def is_int_space_def int_of_digits_def
      int_max_str_digits_def py_strip_def is_space_def is_digit_def digits_nat_def
      digit_value_def)

theorem animation_needs_frames_and_rate_witness:
  "(\<exists>e st'. process_dir (sample_env [] ''4'') (''d'', [''frame_rate''])
       \<lparr>icons_c = [], registry = []\<rparr> = Inl (e, st') \<and> registry st' = []) \<and>
   (\<exists>x. icons (sample_env [] ''4'') ''d'' (Dir [] [''frame_rate'']) = Inl x) \<and>
   (\<exists>e st'. process_dir (sample_env [] ''0'') (''d'', [''frame_rate'', ''a.png''])
       \<lparr>icons_c = [], registry = []\<rparr> = Inl (e, st') \<and> registry st' = []) \<and>
   (\<exists>x. icons (sample_env [] ''0'') ''d'' (Dir [] [''frame_rate'', ''a.png'']) = Inl x)"
  using animation_needs_frames_and_rate [of "[''frame_rate'']" "sample_env [] ''4''" "''d''"
      "\<lparr>icons_c = [], registry = []\<rparr>" "''d''" "Dir [] [''frame_rate'']"]
    animation_needs_frames_and_rate [of "[''frame_rate'', ''a.png'']" "sample_env [] ''0''" "''d''"
      "\<lparr>icons_c = [], registry = []\<rparr>" "''d''" "Dir [] [''frame_rate'', ''a.png'']"]
  by (simp add: sample_frames sample_rate)

lemma sample_sorted:
  "sort [''b.png'', ''frame_rate'', ''a.png''] = [''a.png'', ''b.png'', ''frame_rate'']"
  by simp

theorem animation_frames_agree_witness:
  "(\<exists>e st'. process_dir (sample_env ''d/b.png'' ''4'') (''d'', [''b.png'', ''frame_rate'', ''a.png''])
       \<lparr>icons_c = [], registry = []\<rparr> = Inl (e, st') \<and> registry st' = []) \<and>
   (\<exists>x. icons (sample_env ''d/b.png'' ''4'') ''d'' (Dir [] [''b.png'', ''frame_rate'', ''a.png'']) =
      Inl x)"
proof -
  have fr: "filter is_frame (sort [''b.png'', ''frame_rate'', ''a.png'']) = [''a.png'', ''b.png'']"
    unfolding sample_sorted by (simp add: sample_frames)
  have a: "icon2header (convert (sample_env ''d/b.png'' ''4'')) (heatshrink (sample_env ''d/b.png'' ''4''))
      (path_join ''d'' ''a.png'') = Inr (16, 2, ''{0x01,0x00,0x01,0x00,0xaa,}'')"
    by (rule icon2header_env_sample) (simp add: path_join_def)
  have b: "icon2header (convert (sample_env ''d/b.png'' ''4'')) (heatshrink (sample_env ''d/b.png'' ''4''))
      (path_join ''d'' ''b.png'') = Inr (10, 8, ''{0x00,0x00,}'')"
    using icon2header_env_other [of "''d/b.png''" "''4''"] by (simp add: path_join_def)
  have m: "(10::int) \<noteq> 16 \<or> (8::int) \<noteq> 2" by simp
  from animation_frames_agree [OF _ fr _ a b m, of "\<lparr>icons_c = [], registry = []\<rparr>" "''d''"
      "Dir [] [''b.png'', ''frame_rate'', ''a.png'']"]
  show ?thesis by simp
qed

subsection \<open>The layout of the two files\<close>

lemma str_nat_0: "str_nat 0 = ''0''"
  by (simp add: str_nat.simps digit_char_def)

lemma frame_symbol_0: "''_'' @ name @ ''_0'' = frame_symbol name 0"
  by (simp add: frame_symbol_def str_nat_0)

lemma static_block:
  "ICONS_TEMPLATE_C_FRAME (''_'' @ name @ ''_0'') data @
   ICONS_TEMPLATE_C_DATA (''_'' @ name) (''{'' @ (''_'' @ name @ ''_0'') @ ''}'') @ [LF] =
   icon_block ((name, w, h, r, n), [data])"
  unfolding frame_symbol_0 by (simp add: icon_block_def enumerate_simps)

lemma adds_trans: "adds st st' cs \<Longrightarrow> adds st' st'' ds \<Longrightarrow> adds st st'' (cs @ ds)"
  by (auto simp: adds_def)

lemma static_loop_step:
  assumes "iconIsSupported f"
    and "icon2header (convert E) (heatshrink E) (path_join dp f) = Inr (w, h, data)"
  shows "static_loop E dp (f # fs) st =
     static_loop E dp fs
       (st\<lparr>icons_c := icons_c st @ icon_block ((static_icon_name f, Some w, Some h, 0, 1), [data]),
           registry := registry st @ [(static_icon_name f, Some w, Some h, 0, 1)]\<rparr>)"
proof -
  have "static_loop E dp (f # fs) st =
     static_loop E dp fs
       (st\<lparr>icons_c := icons_c st @
             ICONS_TEMPLATE_C_FRAME (''_'' @ static_icon_name f @ ''_0'') data @
             ICONS_TEMPLATE_C_DATA (''_'' @ static_icon_name f)
               (''{'' @ (''_'' @ static_icon_name f @ ''_0'') @ ''}'') @ [LF],
           registry := registry st @ [(static_icon_name f, Some w, Some h, 0, 1)]\<rparr>)"
    using assms by (simp add: Let_def)
  then show ?thesis
    using static_block [of "static_icon_name f" data "Some w" "Some h" 0 1] by simp
qed

lemma adds_static:
  "adds st
     (st\<lparr>icons_c := icons_c st @ icon_block ((name, w, h, 0, 1), [data]),
         registry := registry st @ [(name, w, h, 0, 1)]\<rparr>)
     [((name, w, h, 0, 1), [data])]"
  by (simp add: adds_def icon_frame_count_def)

lemma static_loop_layout:
  "static_loop E dp fs st = Inr st' \<Longrightarrow>
   \<exists>cs. adds st st' cs \<and>
        map (\<lambda>c. fst (fst c)) cs = map static_icon_name (filter iconIsSupported fs)"
proof (induction fs arbitrary: st)
  case Nil
  then have "adds st st' []" by (simp add: adds_def)
  then show ?case by (intro exI [of _ "[]"]) simp
next
  case (Cons f fs)
  show ?case
  proof (cases "iconIsSupported f")
    case False
    with Cons show ?thesis by simp
  next
    case True
    show ?thesis
    proof (cases "icon2header (convert E) (heatshrink E) (path_join dp f)")
      case (Inl e)
      with Cons.prems True show ?thesis by (simp add: Let_def)
    next
      case (Inr t)
      obtain w h data where t: "t = (w, h, data)" by (cases t)
      let ?i = "(static_icon_name f, Some w, Some h, 0::int, 1::nat)"
      let ?st = "st\<lparr>icons_c := icons_c st @ icon_block (?i, [data]),
                    registry := registry st @ [?i]\<rparr>"
      from Cons.prems static_loop_step [OF True Inr [unfolded t], of fs st]
      have "static_loop E dp fs ?st = Inr st'" by simp
      from Cons.IH [OF this] obtain cs where
        cs: "adds ?st st' cs"
          "map (\<lambda>c. fst (fst c)) cs = map static_icon_name (filter iconIsSupported fs)"
        by blast
      from adds_trans [OF adds_static cs(1)] have "adds st st' ((?i, [data]) # cs)" by simp
      with cs(2) True show ?thesis
        by (intro exI [of _ "(?i, [data]) # cs"]) simp
    qed
  qed
qed

lemma loop_step_rate:
  "py_int (py_strip (read_file E (path_join dp ''frame_rate''))) = Inr r \<Longrightarrow>
   animation_loop E dp nm (''frame_rate'' # fs) a st =
     animation_loop E dp nm fs (a\<lparr>frame_rate := r\<rparr>) st"
  by simp

lemma loop_step_skip:
  "f \<noteq> ''frame_rate'' \<Longrightarrow> \<not> iconIsSupported f \<Longrightarrow>
   animation_loop E dp nm (f # fs) a st = animation_loop E dp nm fs a st"
  by simp

lemma loop_step_frame:
  assumes "is_frame f"
    and "icon2header (convert E) (heatshrink E) (path_join dp f) = Inr (w, h, data)"
    and "animation_loop E dp nm (f # fs) a st = Inr r"
  shows "animation_loop E dp nm fs
     (a\<lparr>width := Some w, height := Some h, frame_count := frame_count a + 1,
         frame_names := frame_names a @ [frame_symbol nm (frame_count a)]\<rparr>)
     (st\<lparr>icons_c := icons_c st @
          ICONS_TEMPLATE_C_FRAME (frame_symbol nm (frame_count a)) data\<rparr>) = Inr r"
proof -
  have w: "(if width a = None then Some w else width a) = Some w"
    using assms by (auto simp: is_frame_def Let_def split: if_splits)
  have h: "(if height a = None then Some h else height a) = Some h"
    using assms by (auto simp: is_frame_def Let_def split: if_splits)
  from assms w h show ?thesis
    by (simp add: is_frame_def Let_def frame_symbol_def)
qed

lemma animation_loop_layout:
  "animation_loop E dp nm fs a st = Inr (a', st') \<Longrightarrow>
   \<exists>datas. frame_count a' = frame_count a + length datas \<and>
     frame_names a' = frame_names a @
       map (\<lambda>(k, data). frame_symbol nm k) (enumerate (frame_count a) datas) \<and>
     icons_c st' = icons_c st @
       concat (map (\<lambda>(k, data). ICONS_TEMPLATE_C_FRAME (frame_symbol nm k) data)
                 (enumerate (frame_count a) datas))"
proof (induction fs arbitrary: a st)
  case Nil
  then show ?case by (intro exI [of _ "[]"]) simp
next
  case (Cons f fs)
  show ?case
  proof (cases "is_frame f")
    case False
    show ?thesis
    proof (cases "f = ''frame_rate''")
      case True
      with Cons.prems obtain r where
        "py_int (py_strip (read_file E (path_join dp ''frame_rate''))) = Inr r"
        by (auto split: sum.splits)
      from Cons.prems [unfolded True loop_step_rate [OF this]]
      have "animation_loop E dp nm fs (a\<lparr>frame_rate := r\<rparr>) st = Inr (a', st')" .
      from Cons.IH [OF this] show ?thesis by simp
    next
      case no_rate: False
      with False have "\<not> iconIsSupported f" by (simp add: is_frame_def)
      from Cons.prems [unfolded loop_step_skip [OF no_rate this]]
      show ?thesis by (rule Cons.IH)
    qed
  next
    case True
    show ?thesis
    proof (cases "icon2header (convert E) (heatshrink E) (path_join dp f)")
      case (Inl e)
      with Cons.prems True show ?thesis by (simp add: is_frame_def)
    next
      case (Inr t)
      obtain w h data where t: "t = (w, h, data)" by (cases t)
      let ?a = "a\<lparr>width := Some w, height := Some h, frame_count := frame_count a + 1,
          frame_names := frame_names a @ [frame_symbol nm (frame_count a)]\<rparr>"
      let ?st = "st\<lparr>icons_c := icons_c st @
          ICONS_TEMPLATE_C_FRAME (frame_symbol nm (frame_count a)) data\<rparr>"
      have "animation_loop E dp nm fs ?a ?st = Inr (a', st')"
        using True Inr [unfolded t] Cons.prems by (rule loop_step_frame)
      from Cons.IH [OF this] obtain datas where
        d: "frame_count a' = frame_count ?a + length datas"
        "frame_names a' = frame_names ?a @
           map (\<lambda>(k, data). frame_symbol nm k) (enumerate (frame_count ?a) datas)"
        "icons_c st' = icons_c ?st @
           concat (map (\<lambda>(k, data). ICONS_TEMPLATE_C_FRAME (frame_symbol nm k) data)
                   (enumerate (frame_count ?a) datas))"
        by blast
      then show ?thesis
        by (intro exI [of _ "data # datas"]) (simp add: enumerate_simps)
    qed
  qed
qed

lemma animation_layout:
  assumes "animation E dp fns st = Inr st'"
  shows "\<exists>c. adds st st' [c] \<and> fst (fst c) = animation_icon_name dp"
proof -
  let ?nm = "animation_icon_name dp"
  from assms obtain a' st2 where
    run: "animation_loop E dp ?nm (sort fns) anim_init st = Inr (a', st2)"
    by (auto simp: animation_def Let_def split: sum.splits)
  let ?i = "(?nm, width a', height a', frame_rate a', frame_count a')"
  from assms run have pos: "0 < frame_count a'" and
    st': "st' = st2\<lparr>icons_c := icons_c st2 @
                  ICONS_TEMPLATE_C_DATA (''_'' @ ?nm) (''{'' @ py_join '','' (frame_names a') @ ''}'') @
                  [LF],
                registry := registry st2 @ [?i]\<rparr>"
    by (auto simp: animation_def Let_def split: if_splits)
  from animation_loop_layout [OF run] obtain datas where
    d: "frame_count a' = length datas"
    "frame_names a' = map (\<lambda>(k, data). frame_symbol ?nm k) (enumerate 0 datas)"
    "icons_c st2 = icons_c st @
       concat (map (\<lambda>(k, data). ICONS_TEMPLATE_C_FRAME (frame_symbol ?nm k) data)
               (enumerate 0 datas))"
    by (auto simp: anim_init_def)
  from animation_loop_registry(2) [OF run] have reg: "registry st2 = registry st" .
  have "adds st st' [(?i, datas)]"
    unfolding adds_def st' using d pos reg
    by (simp add: icon_block_def icon_frame_count_def)
  then show ?thesis by (intro exI [of _ "(?i, datas)"]) simp
qed

lemma process_dir_layout:
  assumes "process_dir E d st = Inr st'"
  shows "\<exists>cs. adds st st' cs \<and> map (\<lambda>c. fst (fst c)) cs = dir_icon_names d"
proof -
  obtain dp names where d: "d = (dp, names)" by (cases d)
  have e: "sort names = [] \<longleftrightarrow> names = []"
    by (metis length_sort length_0_conv)
  show ?thesis
  proof (cases "names = []")
    case True
    with assms d have "st' = st" by (simp add: process_dir_def)
    then have "adds st st' []" by (simp add: adds_def)
    with True d show ?thesis by (intro exI [of _ "[]"]) (simp add: dir_icon_names_def)
  next
    case False
    show ?thesis
    proof (cases "''frame_rate'' \<in> set names")
      case True
      with assms d have "animation E dp (sort names) st = Inr st'"
        by (simp add: animation_dir)
      from animation_layout [OF this] False True d show ?thesis
        by (auto simp: dir_icon_names_def)
    next
      case no_rate: False
      with assms d False e have "static_loop E dp (sort names) st = Inr st'"
        by (simp add: process_dir_def Let_def)
      from static_loop_layout [OF this] False no_rate d show ?thesis
        by (simp add: dir_icon_names_def)
    qed
  qed
qed

lemma walk_loop_layout:
  "walk_loop E ds st = Inr st' \<Longrightarrow>
   \<exists>cs. adds st st' cs \<and> map (\<lambda>c. fst (fst c)) cs = concat (map dir_icon_names ds)"
proof (induction ds arbitrary: st)
  case Nil
  then have "adds st st' []" by (simp add: adds_def)
  then show ?case by (intro exI [of _ "[]"]) simp
next
  case (Cons d ds)
  from Cons.prems obtain st2 where
    one: "process_dir E d st = Inr st2" and more: "walk_loop E ds st2 = Inr st'"
    by (auto split: sum.splits)
  from process_dir_layout [OF one] obtain cs where
    cs: "adds st st2 cs" "map (\<lambda>c. fst (fst c)) cs = dir_icon_names d" by blast
  from Cons.IH [OF more] obtain cs2 where
    cs2: "adds st2 st' cs2" "map (\<lambda>c. fst (fst c)) cs2 = concat (map dir_icon_names ds)" by blast
  from adds_trans [OF cs(1) cs2(1)] cs(2) cs2(2) show ?case
    by (intro exI [of _ "cs @ cs2"]) simp
qed

text \<open>
  Claim C4, as amended. When a run returns, the text of \<^verbatim>\<open>assets_icons.c\<close> is the
  header, then for each icon in the order of the list of icons its block (the arrays of
  its frames in the order of their indices, then its array of frame pointers, then an
  empty line), then one descriptor line for each icon in the same order, then an empty
  line; the text of \<^verbatim>\<open>assets_icons.h\<close> is its header and one declaration line for each
  icon in the same order. Every icon has as many frame arrays as its entry counts, at
  least one, and the icons stand in the order in which the walk meets their directories
  and files; nothing is reordered or left out.
\<close>

theorem output_layout:
  assumes "icons E input_directory tree = Inr (c, h)"
  shows "\<exists>cs. c = ICONS_TEMPLATE_C_HEADER @ concat (map icon_block cs) @
                  concat (map ICONS_TEMPLATE_C_ICONS (map fst cs)) @ [LF] \<and>
              h = ICONS_TEMPLATE_H_HEADER @
                  concat (map (\<lambda>i. ICONS_TEMPLATE_H_ICON_NAME (fst i)) (map fst cs)) \<and>
              (\<forall>x\<in>set cs. length (snd x) = icon_frame_count (fst x) \<and> 0 < icon_frame_count (fst x)) \<and>
              map (\<lambda>x. fst (fst x)) cs =
                concat (map dir_icon_names (os_walk input_directory tree))"
proof -
  let ?st0 = "\<lparr>icons_c = ICONS_TEMPLATE_C_HEADER, registry = []\<rparr>"
  from assms obtain st where
    run: "walk_loop E (os_walk input_directory tree) ?st0 = Inr st" and
    c: "c = icons_c st @ concat (map ICONS_TEMPLATE_C_ICONS (registry st)) @ [LF]" and
    h: "h = ICONS_TEMPLATE_H_HEADER @
            concat (map (\<lambda>i. ICONS_TEMPLATE_H_ICON_NAME (fst i)) (registry st))"
    by (auto simp: icons_def split: sum.splits)
  from walk_loop_layout [OF run] obtain cs where
    cs: "adds ?st0 st cs"
      "map (\<lambda>x. fst (fst x)) cs = concat (map dir_icon_names (os_walk input_directory tree))"
    by blast
  from cs(1) have "registry st = map fst cs"
    "icons_c st = ICONS_TEMPLATE_C_HEADER @ concat (map icon_block cs)"
    by (simp_all add: adds_def)
  moreover from cs(1)
  have "\<forall>x\<in>set cs. length (snd x) = icon_frame_count (fst x) \<and> 0 < icon_frame_count (fst x)"
    unfolding adds_def by blast
  ultimately show ?thesis using c h cs(2) by (intro exI [of _ cs] conjI) simp_all
qed

lemma sample_supported: "iconIsSupported ''a.png''" "iconIsSupported ''b.png''"
  by (simp_all add: name_defs)

lemma sample_static_names: "static_icon_name ''a.png'' = ''I_a''" "static_icon_name ''b.png'' = ''I_b''"
  by (simp_all add: static_icon_name_def)

lemma icons_two_static:
  "icons (sample_env [] ''4'') ''d'' (Dir [] [''b.png'', ''a.png'']) = Inr (two_icons_c, two_icons_h)"
proof -
  have s: "sort [''b.png'', ''a.png''] = [''a.png'', ''b.png'']" by simp
  have p: "path_join ''d'' ''a.png'' \<noteq> []" "path_join ''d'' ''b.png'' \<noteq> []"
    by (simp_all add: path_join_def)
  show ?thesis
    unfolding icons_def two_icons_c_def two_icons_h_def
    by (simp add: process_dir_def s sample_supported sample_static_names
        icon2header_env_sample [OF p(1)] icon2header_env_sample [OF p(2)] Let_def)
qed

text \<open>
  Claim C4 as stated fails: the array of frame pointers of the first icon is written
  before the frame array of the second, so the text is not all frame arrays followed by
  all pointer arrays.
\<close>

theorem frames_then_pointers_counterexample:
  "icons (sample_env [] ''4'') ''d'' (Dir [] [''b.png'', ''a.png'']) = Inr (two_icons_c, two_icons_h) \<and>
   two_icons_c =
     ICONS_TEMPLATE_C_HEADER @
     ICONS_TEMPLATE_C_FRAME ''_I_a_0'' ''{0x01,0x00,0x01,0x00,0xaa,}'' @
     (ICONS_TEMPLATE_C_DATA ''_I_a'' ''{_I_a_0}'' @ [LF]) @
     ICONS_TEMPLATE_C_FRAME ''_I_b_0'' ''{0x01,0x00,0x01,0x00,0xaa,}'' @
     (ICONS_TEMPLATE_C_DATA ''_I_b'' ''{_I_b_0}'' @ [LF]) @
     ICONS_TEMPLATE_C_ICONS (''I_a'', Some 16, Some 2, 0, 1) @
     ICONS_TEMPLATE_C_ICONS (''I_b'', Some 16, Some 2, 0, 1) @ [LF] \<and>
   two_icons_c \<noteq>
     ICONS_TEMPLATE_C_HEADER @
     ICONS_TEMPLATE_C_FRAME ''_I_a_0'' ''{0x01,0x00,0x01,0x00,0xaa,}'' @
     ICONS_TEMPLATE_C_FRAME ''_I_b_0'' ''{0x01,0x00,0x01,0x00,0xaa,}'' @
     (ICONS_TEMPLATE_C_DATA ''_I_a'' ''{_I_a_0}'' @ [LF]) @
     (ICONS_TEMPLATE_C_DATA ''_I_b'' ''{_I_b_0}'' @ [LF]) @
     ICONS_TEMPLATE_C_ICONS (''I_a'', Some 16, Some 2, 0, 1) @
     ICONS_TEMPLATE_C_ICONS (''I_b'', Some 16, Some 2, 0, 1) @ [LF]"
proof (intro conjI)
  show "icons (sample_env [] ''4'') ''d'' (Dir [] [''b.png'', ''a.png'']) =
      Inr (two_icons_c, two_icons_h)"
    by (rule icons_two_static)
  show "two_icons_c =
     ICONS_TEMPLATE_C_HEADER @
     ICONS_TEMPLATE_C_FRAME ''_I_a_0'' ''{0x01,0x00,0x01,0x00,0xaa,}'' @
     (ICONS_TEMPLATE_C_DATA ''_I_a'' ''{_I_a_0}'' @ [LF]) @
     ICONS_TEMPLATE_C_FRAME ''_I_b_0'' ''{0x01,0x00,0x01,0x00,0xaa,}'' @
     (ICONS_TEMPLATE_C_DATA ''_I_b'' ''{_I_b_0}'' @ [LF]) @
     ICONS_TEMPLATE_C_ICONS (''I_a'', Some 16, Some 2, 0, 1) @
     ICONS_TEMPLATE_C_ICONS (''I_b'', Some 16, Some 2, 0, 1) @ [LF]"
    by (simp add: two_icons_c_def)
  show "two_icons_c \<noteq>
     ICONS_TEMPLATE_C_HEADER @
     ICONS_TEMPLATE_C_FRAME ''_I_a_0'' ''{0x01,0x00,0x01,0x00,0xaa,}'' @
     ICONS_TEMPLATE_C_FRAME ''_I_b_0'' ''{0x01,0x00,0x01,0x00,0xaa,}'' @
     (ICONS_TEMPLATE_C_DATA ''_I_a'' ''{_I_a_0}'' @ [LF]) @
     (ICONS_TEMPLATE_C_DATA ''_I_b'' ''{_I_b_0}'' @ [LF]) @
     ICONS_TEMPLATE_C_ICONS (''I_a'', Some 16, Some 2, 0, 1) @
     ICONS_TEMPLATE_C_ICONS (''I_b'', Some 16, Some 2, 0, 1) @ [LF]"
    by (simp add: two_icons_c_def ICONS_TEMPLATE_C_FRAME_def ICONS_TEMPLATE_C_DATA_def)
qed

theorem output_layout_witness:
  "\<exists>cs. two_icons_c = ICONS_TEMPLATE_C_HEADER @ concat (map icon_block cs) @
                  concat (map ICONS_TEMPLATE_C_ICONS (map fst cs)) @ [LF] \<and>
        two_icons_h = ICONS_TEMPLATE_H_HEADER @
                  concat (map (\<lambda>i. ICONS_TEMPLATE_H_ICON_NAME (fst i)) (map fst cs)) \<and>
        map (\<lambda>x. fst (fst x)) cs = [''I_a'', ''I_b'']"
proof -
  have "dir_icon_names (''d'', [''b.png'', ''a.png'']) = [''I_a'', ''I_b'']"
    by (simp add: dir_icon_names_def sample_supported sample_static_names)
  with output_layout [OF icons_two_static] show ?thesis by auto
qed

subsection \<open>The names in the list of icons\<close>

lemma process_dir_names:
  assumes "process_dir E d st = Inr st'"
  shows "map fst (registry st') = map fst (registry st) @ dir_icon_names d"
proof -
  from process_dir_layout [OF assms] obtain cs where
    "adds st st' cs" "map (\<lambda>c. fst (fst c)) cs = dir_icon_names d" by blast
  then show ?thesis by (simp add: adds_def comp_def)
qed

text \<open>
  Claim C5, as amended. A static icon is named \<^verbatim>\<open>I_\<close> followed by the file name up
  to its last dot with every hyphen and every remaining dot replaced by an underscore,
  and \<^verbatim>\<open>I_\<close> alone when the file name has no dot; an animation is named \<^verbatim>\<open>A_\<close>
  followed by the part of the directory path behind its last slash with every hyphen
  replaced by an underscore. The loop body appends to the list of icons exactly the
  icons with these names: none for a directory without files, the animation for a
  directory with a \<^verbatim>\<open>frame_rate\<close> file, otherwise the supported files in sorted order.
\<close>

theorem icon_names:
  "(CHR ''.'' \<notin> set ext \<longrightarrow>
      static_icon_name (stem @ ''.'' @ ext) =
        ''I_'' @ map (\<lambda>c. if c = CHR ''.'' \<or> c = CHR ''-'' then CHR ''_'' else c) stem) \<and>
   (CHR ''.'' \<notin> set f \<longrightarrow> static_icon_name f = ''I_'') \<and>
   (CHR ''/'' \<notin> set b \<longrightarrow>
      animation_icon_name (p @ ''/'' @ b) =
        ''A_'' @ map (\<lambda>c. if c = CHR ''-'' then CHR ''_'' else c) b \<and>
      animation_icon_name b = ''A_'' @ map (\<lambda>c. if c = CHR ''-'' then CHR ''_'' else c) b) \<and>
   (process_dir E (dirpath, names) st = Inr st' \<longrightarrow>
      map fst (registry st') = map fst (registry st) @
        (if names = [] then []
         else if ''frame_rate'' \<in> set names then [animation_icon_name dirpath]
         else map static_icon_name (filter iconIsSupported (sort names))))"
proof (intro conjI impI)
  assume "CHR ''.'' \<notin> set ext"
  then show "static_icon_name (stem @ ''.'' @ ext) =
      ''I_'' @ map (\<lambda>c. if c = CHR ''.'' \<or> c = CHR ''-'' then CHR ''_'' else c) stem"
    by (rule static_name_dot)
next
  assume "CHR ''.'' \<notin> set f"
  then show "static_icon_name f = ''I_''" by (rule static_name_no_dot)
next
  assume "CHR ''/'' \<notin> set b"
  from basename_slash [OF this, of p]
  show "animation_icon_name (p @ ''/'' @ b) =
      ''A_'' @ map (\<lambda>c. if c = CHR ''-'' then CHR ''_'' else c) b"
    by (simp only: animation_icon_name_def replace_char_map)
next
  assume "CHR ''/'' \<notin> set b"
  from basename_no_slash [OF this]
  show "animation_icon_name b = ''A_'' @ map (\<lambda>c. if c = CHR ''-'' then CHR ''_'' else c) b"
    by (simp only: animation_icon_name_def replace_char_map)
next
  assume "process_dir E (dirpath, names) st = Inr st'"
  from process_dir_names [OF this]
  show "map fst (registry st') = map fst (registry st) @
        (if names = [] then []
         else if ''frame_rate'' \<in> set names then [animation_icon_name dirpath]
         else map static_icon_name (filter iconIsSupported (sort names)))"
    by (simp add: dir_icon_names_def)
qed

lemma sample_process_static:
  "process_dir (sample_env [] ''4'') (''d'', [''a.b-c.png'']) \<lparr>icons_c = [], registry = []\<rparr> =
     Inr \<lparr>icons_c = icon_block ((''I_a_b_c'', Some 16, Some 2, 0, 1), [''{0x01,0x00,0x01,0x00,0xaa,}'']),
          registry = [(''I_a_b_c'', Some 16, Some 2, 0, 1)]\<rparr>"
proof -
  have p: "path_join ''d'' ''a.b-c.png'' \<noteq> []" by (simp add: path_join_def)
  have s: "iconIsSupported ''a.b-c.png''" by (simp add: name_defs)
  have n: "static_icon_name ''a.b-c.png'' = ''I_a_b_c''"
    by (simp add: static_icon_name_def)
  show ?thesis
    by (simp add: process_dir_def static_loop_step [OF s icon2header_env_sample [OF p]] n
        del: static_loop.simps(2))
qed

theorem icon_names_witness:
  "static_icon_name (''a.b-c'' @ ''.'' @ ''png'') = ''I_a_b_c'' \<and>
   static_icon_name ''png'' = ''I_'' \<and>
   animation_icon_name (''in/x'' @ ''/'' @ ''foo-bar'') = ''A_foo_bar'' \<and>
   animation_icon_name ''foo-bar'' = ''A_foo_bar'' \<and>
   [''I_a_b_c''] = map static_icon_name (filter iconIsSupported (sort [''a.b-c.png'']))"
proof -
  note t = icon_names [of "''png''" "''a.b-c''" "''png''" "''foo-bar''" "''in/x''"
      "sample_env [] ''4''" "''d''" "[''a.b-c.png'']" "\<lparr>icons_c = [], registry = []\<rparr>"
      "\<lparr>icons_c = icon_block ((''I_a_b_c'', Some 16, Some 2, 0, 1), [''{0x01,0x00,0x01,0x00,0xaa,}'']),
          registry = [(''I_a_b_c'', Some 16, Some 2, 0, 1)]\<rparr>"]
  have d: "CHR ''.'' \<notin> set ''png''" "CHR ''/'' \<notin> set ''foo-bar''" by simp_all
  have r: "''frame_rate'' \<notin> set [''a.b-c.png'']" by simp
  from t [THEN conjunct1, THEN mp, OF d(1)]
  have c1: "static_icon_name (''a.b-c'' @ ''.'' @ ''png'') = ''I_a_b_c''" by simp
  from t [THEN conjunct2, THEN conjunct1, THEN mp, OF d(1)]
  have c2: "static_icon_name ''png'' = ''I_''" .
  from t [THEN conjunct2, THEN conjunct2, THEN conjunct1, THEN mp, OF d(2)]
  have c3: "animation_icon_name (''in/x'' @ ''/'' @ ''foo-bar'') = ''A_foo_bar''"
    "animation_icon_name ''foo-bar'' = ''A_foo_bar''" by simp_all
  from t [THEN conjunct2, THEN conjunct2, THEN conjunct2, THEN mp, OF sample_process_static] r
  have "map fst [(''I_a_b_c'', Some (16::int), Some (2::int), 0::int, 1::nat)] =
      map fst ([] :: icon list) @
      map static_icon_name (filter iconIsSupported (sort [''a.b-c.png'']))"
    by (simp del: sort_key_simps filter.simps list.map)
  then have c4: "[''I_a_b_c''] = map static_icon_name (filter iconIsSupported (sort [''a.b-c.png'']))"
    by (simp only: list.map fst_conv append_Nil)
  from c1 c2 c3 c4 show ?thesis by (intro conjI)
qed

text \<open>
  Claim C5 as stated fails: the file \<^verbatim>\<open>a.b.png\<close> without its extension is \<^verbatim>\<open>a.b\<close>,
  and it has no hyphen, but the icon is named \<^verbatim>\<open>I_a_b\<close>.
\<close>

theorem filename_without_extension_counterexample:
  "static_icon_name ''a.b.png'' = ''I_a_b'' \<and>
   dir_icon_names (''d'', [''a.b.png'']) = [''I_a_b''] \<and>
   ''I_a_b'' \<noteq> ''I_'' @ py_replace ''-'' ''_'' ''a.b''"
  by (simp add: static_icon_name_def dir_icon_names_def name_defs)

subsection \<open>Supported files\<close>

lemma lower_png_not_rate: "py_lower f = ''png'' \<Longrightarrow> f \<noteq> ''frame_rate''"
proof
  assume a: "py_lower f = ''png''" and b: "f = ''frame_rate''"
  have "length (py_lower f) = length f" by (simp add: py_lower_def)
  with a b show False by simp
qed

text \<open>
  Claim C10. A file name is supported if and only if what follows the last dot of its
  lower-case form (the whole form when it has no dot) is \<^verbatim>\<open>png\<close>. So a name without a
  dot whose lower-case form is \<^verbatim>\<open>png\<close> is supported, and a directory holding just
  that file is compiled to one icon, named \<^verbatim>\<open>I_\<close>, whenever the conversion succeeds.
\<close>

theorem supported_iff_last_component:
  "(iconIsSupported f \<longleftrightarrow>
      rev (takeWhile (\<lambda>c. c \<noteq> CHR ''.'') (rev (py_lower f))) = ''png'') \<and>
   (CHR ''.'' \<notin> set f \<and> py_lower f = ''png'' \<longrightarrow>
      iconIsSupported f \<and>
      (icon2header (convert E) (heatshrink E) (path_join dirpath f) = Inr (w, h, data) \<longrightarrow>
       process_dir E (dirpath, [f]) st =
         Inr (st\<lparr>icons_c := icons_c st @ icon_block ((''I_'', Some w, Some h, 0, 1), [data]),
                 registry := registry st @ [(''I_'', Some w, Some h, 0, 1)]\<rparr>)))"
proof -
  have a: "iconIsSupported f \<longleftrightarrow>
      rev (takeWhile (\<lambda>c. c \<noteq> CHR ''.'') (rev (py_lower f))) = ''png''"
    by (simp add: iconIsSupported_def ICONS_SUPPORTED_FORMATS_def last_split)
  have b: "iconIsSupported f" if "py_lower f = ''png''"
    unfolding a using that by simp
  have c: "process_dir E (dirpath, [f]) st =
         Inr (st\<lparr>icons_c := icons_c st @ icon_block ((''I_'', Some w, Some h, 0, 1), [data]),
                 registry := registry st @ [(''I_'', Some w, Some h, 0, 1)]\<rparr>)"
    if "CHR ''.'' \<notin> set f" "py_lower f = ''png''"
      "icon2header (convert E) (heatshrink E) (path_join dirpath f) = Inr (w, h, data)"
  proof -
    from that(1) have n: "static_icon_name f = ''I_''" by (rule static_name_no_dot)
    from that(2) have r: "f \<noteq> ''frame_rate''" by (rule lower_png_not_rate)
    from r show ?thesis
      by (simp add: process_dir_def static_loop_step [OF b [OF that(2)] that(3)] n
          del: static_loop.simps(2))
  qed
  from a b c show ?thesis by blast
qed

theorem supported_iff_last_component_witness:
  "iconIsSupported ''PNG'' \<and>
   process_dir (sample_env [] ''4'') (''d'', [''PNG'']) \<lparr>icons_c = [], registry = []\<rparr> =
     Inr \<lparr>icons_c = icon_block ((''I_'', Some 16, Some 2, 0, 1), [''{0x01,0x00,0x01,0x00,0xaa,}'']),
          registry = [(''I_'', Some 16, Some 2, 0, 1)]\<rparr>"
proof -
  have p: "path_join ''d'' ''PNG'' \<noteq> []" by (simp add: path_join_def)
  have l: "CHR ''.'' \<notin> set ''PNG'' \<and> py_lower ''PNG'' = ''png''"
    by (simp add: name_defs)
  from supported_iff_last_component [of "''PNG''" "sample_env [] ''4''" "''d''" 16 2
      "''{0x01,0x00,0x01,0x00,0xaa,}''" "\<lparr>icons_c = [], registry = []\<rparr>"]
    l icon2header_env_sample [OF p, of "''4''"]
  show ?thesis by simp
qed

subsection \<open>Independence of the order of enumeration\<close>

lemma sort_mset: "mset xs = mset ys \<Longrightarrow> sort xs = sort (ys :: string list)"
  by (rule sort_key_eq_sort_key) simp_all

lemma map_sort_key: "map f (sort_key f xs) = sort (map f xs)"
  by (rule properties_for_sort [symmetric]) simp_all

lemma process_dir_listing: "process_dir E (listing d) st = process_dir E d st"
  by (cases d) (simp add: process_dir_def listing_def sort_sort)

lemma walk_loop_listing: "walk_loop E (map listing ds) st = walk_loop E ds st"
  by (induction ds arbitrary: st) (simp_all add: process_dir_listing split: sum.splits)

lemma walk_same:
  "same_tree t t' \<Longrightarrow> map listing (os_walk dp t) = map listing (os_walk dp t')"
proof (induction t t' arbitrary: dp rule: same_tree.induct)
  case (1 ds fs ds' fs')
  let ?S = "sort_key fst ds" and ?S' = "sort_key fst ds'"
  let ?G = "\<lambda>x. map listing (os_walk (path_join dp (fst x)) (snd x))"
  from "1.prems" have fs: "mset fs = mset fs'" and
    names: "mset (map fst ds) = mset (map fst ds')" and
    sub: "\<And>x y. x \<in> set ds \<Longrightarrow> y \<in> set ds' \<Longrightarrow> fst x = fst y \<Longrightarrow> same_tree (snd x) (snd y)"
    by auto
  from sort_mset [OF names] have key: "map fst ?S = map fst ?S'"
    by (simp only: map_sort_key)
  then have len: "length ?S = length ?S'"
    by (rule map_eq_imp_length_eq)
  have "map ?G ?S = map ?G ?S'"
  proof (rule nth_equalityI)
    show "length (map ?G ?S) = length (map ?G ?S')" using len by simp
  next
    fix i
    assume "i < length (map ?G ?S)"
    then have i: "i < length ?S" "i < length ?S'" using len by simp_all
    from i have "?S ! i \<in> set ?S" "?S' ! i \<in> set ?S'"
      by (simp_all only: nth_mem)
    then have mem: "?S ! i \<in> set ds" "?S' ! i \<in> set ds'"
      by simp_all
    from i have "map fst ?S ! i = fst (?S ! i)" "map fst ?S' ! i = fst (?S' ! i)"
      by (simp_all only: nth_map)
    with key have k: "fst (?S ! i) = fst (?S' ! i)"
      by simp
    from "1.IH" [OF mem k sub [OF mem k]]
    have "?G (?S ! i) = ?G (?S' ! i)" by (simp add: k)
    with i show "map ?G ?S ! i = map ?G ?S' ! i" by simp
  qed
  then have "concat (map ?G ?S) = concat (map ?G ?S')" by simp
  moreover have "listing (dp, fs) = listing (dp, fs')"
    using sort_mset [OF fs] by (simp add: listing_def)
  ultimately show ?case
    by (simp add: map_concat comp_def case_prod_beta)
qed

text \<open>
  Claim C8. With the collaborators and the file contents fixed, two runs over two
  listings of the same tree, which differ only in the order in which the file system
  enumerates each directory, have the same outcome: the same two texts, or the same
  exception in the same state. The walk hands over the same directories in the same
  order, each with the same sorted file names.
\<close>

theorem icons_deterministic:
  assumes "same_tree t t'"
  shows "icons E input_directory t = icons E input_directory t' \<and>
         map listing (os_walk input_directory t) = map listing (os_walk input_directory t')"
proof -
  from assms have w: "map listing (os_walk input_directory t) = map listing (os_walk input_directory t')"
    by (rule walk_same)
  have "walk_loop E (os_walk input_directory t) st = walk_loop E (os_walk input_directory t') st"
    for st
    using walk_loop_listing [of E "os_walk input_directory t" st]
      walk_loop_listing [of E "os_walk input_directory t'" st] w by simp
  with w show ?thesis by (simp add: icons_def)
qed

theorem icons_deterministic_witness:
  "icons (sample_env [] ''4'') ''d'' tree_a = icons (sample_env [] ''4'') ''d'' tree_b \<and>
   map listing (os_walk ''d'' tree_a) = map listing (os_walk ''d'' tree_b)"
proof -
  have "same_tree tree_a tree_b" by (simp add: tree_a_def tree_b_def)
  then show ?thesis by (rule icons_deterministic)
qed

end
